theory Spec2Isabelle
  imports Main "HOL-Library.Monad_Syntax" "HOL-Library.Word"
begin

unbundle bit_operations_syntax

section \<open>Machine integers and undefined behaviour\<close>

text \<open>
  The emulator is C++: \<open>int\<close> is 32 bits, \<open>long\<close> is 64 bits, \<open>char\<close> is a byte.
  Integers are modelled as HOL integers; where a value comes from the byte stream and
  can leave the range of its C type, the overflow is written out. Every operation whose
  C++ behaviour is undefined (an index outside a \<open>std::vector\<close> or \<open>std::deque\<close>,
  a signed overflow) returns \<open>None\<close>, and so does one that throws: nothing in the
  emulator catches an exception.
\<close>

definition INT_MAX :: int where
  "INT_MAX = 2147483647"

definition INT_MIN :: int where
  "INT_MIN = - 2147483648"

definition LONG_MAX :: int where
  "LONG_MAX = 9223372036854775807"

definition int_ok :: "int \<Rightarrow> bool" where
  "int_ok v = (INT_MIN \<le> v \<and> v \<le> INT_MAX)"

text \<open>\<open>a + b\<close> on two \<open>int\<close>s: undefined when the sum is not representable.\<close>

definition int_add :: "int \<Rightarrow> int \<Rightarrow> int option" where
  "int_add a b = (if int_ok (a + b) then Some (a + b) else None)"

text \<open>Passing a \<open>long\<close> where an \<open>int\<close> parameter is expected keeps the low 32 bits.\<close>

definition long_to_int :: "int \<Rightarrow> int" where
  "long_to_int v = sint (word_of_int v :: 32 word)"

text \<open>
  A counted loop \<open>for (x : xs) body(x)\<close>; the body may fail, which ends the run.
\<close>

fun for_loop :: "'i list \<Rightarrow> ('i \<Rightarrow> 's \<Rightarrow> 's option) \<Rightarrow> 's \<Rightarrow> 's option" where
  "for_loop [] body s = Some s"
| "for_loop (i # rest) body s =
     (case body i s of None \<Rightarrow> None | Some s' \<Rightarrow> for_loop rest body s')"

text \<open>
  \<open>for (int i = 0; i < val; i += 1) body\<close> with \<open>val\<close> a \<open>long\<close>: the body runs
  \<open>val\<close> times; the counter is an \<open>int\<close>, so a \<open>val\<close> beyond \<open>INT_MAX\<close> overflows it.
\<close>

definition repeat_loop :: "int \<Rightarrow> (int \<Rightarrow> 's \<Rightarrow> 's option) \<Rightarrow> 's \<Rightarrow> 's option" where
  "repeat_loop val body s =
     (if val > INT_MAX then None else for_loop [0 .. val - 1] body s)"

section \<open>Collaborators from the host editor\<close>

text \<open>
  Modelled from the spec: the \<open>LIMIT(x, lower, upper)\<close> macro comes from the host
  editor's headers, which are not part of the sources. The spec says that it clamps a
  value into bounds; the lower bound is tested first.
\<close>

definition LIMIT :: "int \<Rightarrow> int \<Rightarrow> int \<Rightarrow> int" where
  "LIMIT x lower upper = (if x < lower then lower else if x > upper then upper else x)"

text \<open>
  A glyph is the byte sequence of one grapheme; \<open>GLYPH("")\<close> is the empty glyph, whose
  first byte \<open>c\<close> reads as 0.
\<close>

type_synonym glyph = string

definition glyph_c :: "glyph \<Rightarrow> char" where
  "glyph_c g = (case g of [] \<Rightarrow> CHR 0x00 | c # _ \<Rightarrow> c)"

text \<open>
  The host functions \<open>yed_get_glyph_width\<close>, \<open>yed_get_glyph_len\<close> and
  \<open>yed_get_tab_width\<close> are not part of the sources; the model takes them as
  parameters. \<open>glyph_len\<close> receives the bytes from the glyph's first byte on.
\<close>

record yed_env =
  glyph_width :: "glyph \<Rightarrow> int"
  glyph_len :: "string \<Rightarrow> nat"
  tab_width :: int

text \<open>
  Modelled from the spec: \<open>yed_attrs\<close> packs the rendering attributes into a flags
  word and two colour words; the flag bits are declared in the host's headers. The spec
  lists bold, underline and inverse, a colour kind for each of foreground and background
  (default, 16-colour, 256-colour, RGB) and a light-intensity bit for each.
\<close>

datatype color_kind = ATTR_KIND_NONE | ATTR_KIND_16 | ATTR_KIND_256 | ATTR_KIND_RGB

record yed_attrs =
  ATTR_BOLD :: bool
  ATTR_UNDERLINE :: bool
  ATTR_INVERSE :: bool
  ATTR_16_LIGHT_FG :: bool
  ATTR_16_LIGHT_BG :: bool
  FG_KIND :: color_kind
  BG_KIND :: color_kind
  fg :: "32 word"
  bg :: "32 word"

definition ZERO_ATTR :: yed_attrs where
  "ZERO_ATTR = \<lparr> ATTR_BOLD = False, ATTR_UNDERLINE = False, ATTR_INVERSE = False,
      ATTR_16_LIGHT_FG = False, ATTR_16_LIGHT_BG = False,
      FG_KIND = ATTR_KIND_NONE, BG_KIND = ATTR_KIND_NONE, fg = 0, bg = 0 \<rparr>"

section \<open>Cell and Line\<close>

record cell =
  glyph :: glyph
  attrs :: yed_attrs

record line =
  cells :: "cell list"
  dirty :: bool

definition blank_cell :: "yed_attrs \<Rightarrow> cell" where
  "blank_cell a = \<lparr> glyph = [], attrs = a \<rparr>"

text \<open>\<open>std::vector::resize(n, v)\<close>: truncate, or pad with copies of \<open>v\<close>.\<close>

definition vec_resize :: "nat \<Rightarrow> 'a \<Rightarrow> 'a list \<Rightarrow> 'a list" where
  "vec_resize n v xs = take n xs @ replicate (n - length xs) v"

text \<open>
  \<open>resize\<close> called with an \<open>int\<close>: the count is a \<open>size_t\<close>, so a negative width
  converts to a count beyond \<open>max_size()\<close>, and \<open>resize\<close> throws \<open>std::length_error\<close>.
\<close>

definition vec_resize_int :: "int \<Rightarrow> 'a \<Rightarrow> 'a list \<Rightarrow> 'a list option" where
  "vec_resize_int n v xs = (if n < 0 then None else Some (vec_resize (nat n) v xs))"

text \<open>\<open>Line::clear_cells\<close>: blank every cell, then resize to \<open>width\<close>.\<close>

definition clear_cells :: "int \<Rightarrow> yed_attrs \<Rightarrow> line \<Rightarrow> line option" where
  "clear_cells w a l = do {
     cs \<leftarrow> vec_resize_int w (blank_cell a) (map (\<lambda>_. blank_cell a) (cells l));
     Some (l\<lparr> cells := cs \<rparr>)
   }"

text \<open>\<open>Line::new_by_donation\<close>: the line's storage moves into a new line, which is cleared.\<close>

definition new_by_donation :: "int \<Rightarrow> yed_attrs \<Rightarrow> line \<Rightarrow> line option" where
  "new_by_donation w a l = clear_cells w a l"

text \<open>The constructor \<open>Line(width, attrs)\<close>.\<close>

definition Line :: "int \<Rightarrow> yed_attrs \<Rightarrow> line option" where
  "Line w a = clear_cells w a \<lparr> cells = [], dirty = False \<rparr>"

text \<open>The line that \<open>Line(n, attrs)\<close> constructs for a width that is not negative.\<close>

definition blank_line :: "nat \<Rightarrow> yed_attrs \<Rightarrow> line" where
  "blank_line n a = \<lparr> cells = replicate n (blank_cell a), dirty = False \<rparr>"

section \<open>Screen\<close>

text \<open>
  \<open>Screen::attrs\<close> is a reference to the terminal's current attributes; the model
  passes the current attributes to each operation that reads them. The host's text
  buffer, which mirrors the rows for display, is outside the model.
\<close>

record screen =
  lines :: "line list"
  width :: int
  height :: int
  cursor_row :: int
  cursor_col :: int
  cursor_row_save :: int
  cursor_col_save :: int
  attrs_save :: yed_attrs
  cursor_saved :: bool
  scroll_t :: int
  scroll_b :: int
  scrollback :: int

text \<open>A screen as constructed: no lines, no size; \<open>sb\<close> is \<open>get_scrollback()\<close>.\<close>

definition new_Screen :: "int \<Rightarrow> screen" where
  "new_Screen sb = \<lparr> lines = [], width = 0, height = 0, cursor_row = 1, cursor_col = 1,
      cursor_row_save = 1, cursor_col_save = 1, attrs_save = ZERO_ATTR,
      cursor_saved = False, scroll_t = 0, scroll_b = 0, scrollback = sb \<rparr>"

text \<open>Indexing a vector or deque: outside its range the access is undefined.\<close>

definition vec_at :: "'a list \<Rightarrow> int \<Rightarrow> 'a option" where
  "vec_at xs idx = (if 0 \<le> idx \<and> idx < int (length xs) then Some (xs ! nat idx) else None)"

definition vec_set :: "'a list \<Rightarrow> int \<Rightarrow> 'a \<Rightarrow> 'a list option" where
  "vec_set xs idx v =
     (if 0 \<le> idx \<and> idx < int (length xs) then Some (xs[nat idx := v]) else None)"

text \<open>\<open>erase(begin() + idx)\<close> and \<open>insert(begin() + idx, v)\<close>.\<close>

definition vec_erase :: "'a list \<Rightarrow> int \<Rightarrow> 'a list option" where
  "vec_erase xs idx =
     (if 0 \<le> idx \<and> idx < int (length xs)
      then Some (take (nat idx) xs @ drop (Suc (nat idx)) xs) else None)"

definition vec_insert :: "'a list \<Rightarrow> int \<Rightarrow> 'a \<Rightarrow> 'a list option" where
  "vec_insert xs idx v =
     (if 0 \<le> idx \<and> idx \<le> int (length xs)
      then Some (take (nat idx) xs @ v # drop (nat idx) xs) else None)"

definition Screen_set_cursor :: "int \<Rightarrow> int \<Rightarrow> screen \<Rightarrow> screen" where
  "Screen_set_cursor row col s =
     s\<lparr> cursor_row := LIMIT row 1 (height s), cursor_col := LIMIT col 1 (width s) \<rparr>"

definition Screen_move_cursor :: "int \<Rightarrow> int \<Rightarrow> screen \<Rightarrow> screen option" where
  "Screen_move_cursor rows cols s = do {
     r \<leftarrow> int_add (cursor_row s) rows;
     c \<leftarrow> int_add (cursor_col s) cols;
     Some (Screen_set_cursor r c s)
   }"

definition Screen_save_cursor :: "yed_attrs \<Rightarrow> screen \<Rightarrow> screen" where
  "Screen_save_cursor a s =
     s\<lparr> cursor_row_save := cursor_row s, cursor_col_save := cursor_col s,
        attrs_save := a, cursor_saved := True \<rparr>"

text \<open>\<open>restore_cursor\<close> also writes the shared attributes: they are returned.\<close>

definition Screen_restore_cursor :: "screen \<Rightarrow> screen \<times> yed_attrs" where
  "Screen_restore_cursor s =
     (s\<lparr> cursor_row := cursor_row_save s, cursor_col := cursor_col_save s,
         cursor_saved := False \<rparr>, attrs_save s)"

definition Screen_make_dirty :: "screen \<Rightarrow> screen" where
  "Screen_make_dirty s = s\<lparr> lines := map (\<lambda>l. l\<lparr> dirty := True \<rparr>) (lines s) \<rparr>"

definition Screen__delete_line :: "int \<Rightarrow> screen \<Rightarrow> screen option" where
  "Screen__delete_line which s = do {
     ls \<leftarrow> vec_erase (lines s) which;
     Some (s\<lparr> lines := ls \<rparr>)
   }"

definition Screen_set_scroll :: "int \<Rightarrow> int \<Rightarrow> screen \<Rightarrow> screen" where
  "Screen_set_scroll top_row bottom_row s =
     s\<lparr> scroll_t := LIMIT top_row 0 (height s), scroll_b := LIMIT bottom_row 0 (height s) \<rparr>"

definition sctop :: "screen \<Rightarrow> int" where
  "sctop s = (if scroll_t s \<noteq> 0 then scroll_t s else 1)"

definition scbottom :: "screen \<Rightarrow> int" where
  "scbottom s = (if scroll_b s \<noteq> 0 then scroll_b s else height s)"

text \<open>
  The attribute loop of \<open>Screen::set\<close>, one iteration: column \<open>col + i\<close> of the
  line receives the current attributes. The \<open>break\<close> at \<open>col + i > width\<close> is a skip
  here: once true it stays true for every later \<open>i\<close>.
\<close>

definition set_attrs_step :: "yed_attrs \<Rightarrow> int \<Rightarrow> int \<Rightarrow> int \<Rightarrow> cell list \<Rightarrow> cell list option" where
  "set_attrs_step a w col i cs =
     (if col + i > w then Some cs
      else do {
        c \<leftarrow> vec_at cs (col - 1 + i);
        vec_set cs (col - 1 + i) (c\<lparr> attrs := a \<rparr>)
      })"

definition Screen_set :: "yed_env \<Rightarrow> yed_attrs \<Rightarrow> int \<Rightarrow> int \<Rightarrow> glyph \<Rightarrow> screen \<Rightarrow> screen option" where
  "Screen_set y a row col g s =
     (if row > height s \<or> col > width s then Some s
      else do {
        l \<leftarrow> vec_at (lines s) (scrollback s + row - 1);
        c \<leftarrow> vec_at (cells l) (col - 1);
        cs \<leftarrow> vec_set (cells l) (col - 1) (c\<lparr> glyph := g \<rparr>);
        cs' \<leftarrow> for_loop [0 .. glyph_width y g - 1] (set_attrs_step a (width s) col) cs;
        ls \<leftarrow> vec_set (lines s) (scrollback s + row - 1) (l\<lparr> cells := cs', dirty := True \<rparr>);
        Some (s\<lparr> lines := ls \<rparr>)
      })"

definition Screen_set_current_cell :: "yed_env \<Rightarrow> yed_attrs \<Rightarrow> glyph \<Rightarrow> screen \<Rightarrow> screen option" where
  "Screen_set_current_cell y a g s = Screen_set y a (cursor_row s) (cursor_col s) g s"

text \<open>\<open>Screen::insert\<close>: insert a cell before column \<open>col\<close>, drop the row's last cell.\<close>

definition Screen_insert :: "yed_attrs \<Rightarrow> int \<Rightarrow> int \<Rightarrow> glyph \<Rightarrow> screen \<Rightarrow> screen option" where
  "Screen_insert a row col g s = do {
     l \<leftarrow> vec_at (lines s) (scrollback s + row - 1);
     cs \<leftarrow> vec_insert (cells l) (col - 1) \<lparr> glyph = g, attrs = a \<rparr>;
     ls \<leftarrow> vec_set (lines s) (scrollback s + row - 1) (l\<lparr> cells := butlast cs \<rparr>);
     Some (s\<lparr> lines := ls \<rparr>)
   }"

definition Screen_del_cell :: "yed_attrs \<Rightarrow> int \<Rightarrow> int \<Rightarrow> screen \<Rightarrow> screen option" where
  "Screen_del_cell a row col s = do {
     l \<leftarrow> vec_at (lines s) (scrollback s + row - 1);
     cs \<leftarrow> vec_erase (cells l) (col - 1);
     ls \<leftarrow> vec_set (lines s) (scrollback s + row - 1)
             (l\<lparr> cells := cs @ [blank_cell a], dirty := True \<rparr>);
     Some (s\<lparr> lines := ls \<rparr>)
   }"

definition Screen_clear_row_abs :: "yed_attrs \<Rightarrow> int \<Rightarrow> screen \<Rightarrow> screen option" where
  "Screen_clear_row_abs a row s = do {
     l \<leftarrow> vec_at (lines s) (row - 1);
     l' \<leftarrow> clear_cells (width s) a l;
     ls \<leftarrow> vec_set (lines s) (row - 1) (l'\<lparr> dirty := True \<rparr>);
     Some (s\<lparr> lines := ls \<rparr>)
   }"

definition Screen_clear_row :: "yed_attrs \<Rightarrow> int \<Rightarrow> screen \<Rightarrow> screen option" where
  "Screen_clear_row a row s = Screen_clear_row_abs a (scrollback s + row) s"

text \<open>
  The loop that ends the four line operations: every row of the scroll region is marked
  dirty. (The source also asserts there that each line is at least \<open>width\<close> long.)
\<close>

definition mark_dirty_row :: "int \<Rightarrow> screen \<Rightarrow> screen option" where
  "mark_dirty_row idx s = do {
     l \<leftarrow> vec_at (lines s) idx;
     ls \<leftarrow> vec_set (lines s) idx (l\<lparr> dirty := True \<rparr>);
     Some (s\<lparr> lines := ls \<rparr>)
   }"

definition mark_region_dirty :: "screen \<Rightarrow> screen option" where
  "mark_region_dirty s =
     for_loop [sctop s .. scbottom s] (\<lambda>i. mark_dirty_row (scrollback s + i - 1)) s"

text \<open>
  \<open>new_row > lines.size()\<close> compares an \<open>int\<close> with a \<open>size_t\<close>: a negative
  \<open>new_row\<close> converts to a huge unsigned value and compares greater.
\<close>

definition gt_size :: "int \<Rightarrow> 'a list \<Rightarrow> bool" where
  "gt_size n xs = (n < 0 \<or> n > int (length xs))"

definition insert_or_push :: "int \<Rightarrow> line \<Rightarrow> screen \<Rightarrow> screen option" where
  "insert_or_push new_row l s =
     (if gt_size new_row (lines s) then Some (s\<lparr> lines := lines s @ [l] \<rparr>)
      else do {
        ls \<leftarrow> vec_insert (lines s) (new_row - 1) l;
        Some (s\<lparr> lines := ls \<rparr>)
      })"

definition Screen_scroll_up :: "yed_attrs \<Rightarrow> screen \<Rightarrow> screen option" where
  "Screen_scroll_up a s = do {
     let del_row = (if scroll_t s \<noteq> 0 then scrollback s + scroll_t s else 1);
     let new_row = scrollback s + scbottom s;
     old \<leftarrow> vec_at (lines s) (del_row - 1);
     new_line \<leftarrow> new_by_donation (width s) a old;
     s1 \<leftarrow> Screen__delete_line (del_row - 1) s;
     s2 \<leftarrow> insert_or_push new_row new_line s1;
     mark_region_dirty s2
   }"

definition Screen_scroll_down :: "yed_attrs \<Rightarrow> screen \<Rightarrow> screen option" where
  "Screen_scroll_down a s = do {
     let del_row = scrollback s + scbottom s;
     let new_row = scrollback s + (if scroll_t s \<noteq> 0 then scroll_t s else 1);
     s1 \<leftarrow> Screen__delete_line (del_row - 1) s;
     new_line \<leftarrow> Line (width s) a;
     ls \<leftarrow> vec_insert (lines s1) (new_row - 1) new_line;
     mark_region_dirty (s1\<lparr> lines := ls \<rparr>)
   }"

definition Screen_insert_line :: "yed_attrs \<Rightarrow> int \<Rightarrow> screen \<Rightarrow> screen option" where
  "Screen_insert_line a row s = do {
     let del_row = scrollback s + scbottom s;
     let new_row = scrollback s + row;
     s1 \<leftarrow> Screen__delete_line (del_row - 1) s;
     new_line \<leftarrow> Line (width s) a;
     s2 \<leftarrow> insert_or_push new_row new_line s1;
     mark_region_dirty s2
   }"

definition Screen_delete_line :: "yed_attrs \<Rightarrow> int \<Rightarrow> screen \<Rightarrow> screen option" where
  "Screen_delete_line a row s = do {
     let del_row = scrollback s + row;
     let new_row = scrollback s + scbottom s;
     s1 \<leftarrow> Screen__delete_line (del_row - 1) s;
     new_line \<leftarrow> Line (width s) a;
     ls \<leftarrow> vec_insert (lines s1) (new_row - 1) new_line;
     let s2 = s1\<lparr> lines := ls \<rparr>;
     (if scroll_t s \<noteq> 0 \<or> scroll_b s \<noteq> 0 then mark_region_dirty s2 else Some s2)
   }"

text \<open>
  The shrinking loop of \<open>set_dimensions\<close>: while there are too many lines, drop the
  last line when its first cell is blank, the first line otherwise. Reading the first
  cell of an empty line is undefined.
\<close>

function shrink_lines :: "nat \<Rightarrow> line list \<Rightarrow> line list option" where
  "shrink_lines n ls =
     (if length ls > n
      then (case cells (last ls) of
              [] \<Rightarrow> None
            | c # _ \<Rightarrow>
                if glyph_c (glyph c) = CHR 0x00 then shrink_lines n (butlast ls)
                else shrink_lines n (tl ls))
      else Some ls)"
  by pat_completeness auto
termination
  by (relation "measure (\<lambda>(n, ls). length ls)") auto

declare shrink_lines.simps [simp del]

text \<open>
  \<open>linep->size() > max_width\<close> compares a \<open>size_t\<close> with an \<open>int\<close>: a negative
  \<open>max_width\<close> converts to a huge unsigned value, and no size compares greater.
\<close>

definition size_gt :: "'a list \<Rightarrow> int \<Rightarrow> bool" where
  "size_gt xs n = (0 \<le> n \<and> int (length xs) > n)"

text \<open>The width of the longest line, and at least the new width.\<close>

definition max_line_width :: "int \<Rightarrow> line list \<Rightarrow> int" where
  "max_line_width w ls =
     fold (\<lambda>l m. if size_gt (cells l) m then int (length (cells l)) else m) ls w"

text \<open>
  The first part of \<open>set_dimensions\<close>: append blank lines or evict lines until there are
  \<open>num_lines\<close>. A negative \<open>num_lines\<close> compares as a huge unsigned number, and the
  growing loop does not end.
\<close>

definition adjust_line_count :: "yed_attrs \<Rightarrow> int \<Rightarrow> int \<Rightarrow> line list \<Rightarrow> line list option" where
  "adjust_line_count a max_width num_lines ls =
     (if num_lines < 0 then None
      else if num_lines > int (length ls)
      then do {
        new_line \<leftarrow> Line max_width a;
        Some (ls @ replicate (nat num_lines - length ls) new_line)
      }
      else shrink_lines (nat num_lines) ls)"

text \<open>The second part: every line is resized to \<open>max_width\<close>.\<close>

definition pad_line :: "yed_attrs \<Rightarrow> int \<Rightarrow> line \<Rightarrow> line option" where
  "pad_line a max_width l = do {
     cs \<leftarrow> vec_resize_int max_width (blank_cell a) (cells l);
     Some (l\<lparr> cells := cs \<rparr>)
   }"

fun pad_lines :: "yed_attrs \<Rightarrow> int \<Rightarrow> line list \<Rightarrow> line list option" where
  "pad_lines a max_width [] = Some []"
| "pad_lines a max_width (l # ls) = do {
     l' \<leftarrow> pad_line a max_width l;
     ls' \<leftarrow> pad_lines a max_width ls;
     Some (l' # ls')
   }"

definition Screen_set_dimensions :: "yed_attrs \<Rightarrow> int \<Rightarrow> int \<Rightarrow> screen \<Rightarrow> screen option" where
  "Screen_set_dimensions a w h s = do {
     let max_width = max_line_width w (lines s);
     let num_lines = h + scrollback s;
     ls \<leftarrow> adjust_line_count a max_width num_lines (lines s);
     ls' \<leftarrow> (if max_width > width s then pad_lines a max_width ls else Some ls);
     for_loop [max 1 (scrollback s - h) .. scrollback s + h - 1]
       (\<lambda>row. mark_dirty_row (row - 1))
       (s\<lparr> lines := ls', width := w, height := h,
           scroll_t := LIMIT (scroll_t s) 0 h, scroll_b := LIMIT (scroll_b s) 0 h,
           cursor_row := LIMIT (cursor_row s) 1 h, cursor_col := LIMIT (cursor_col s) 1 w \<rparr>)
   }"

text \<open>\<open>Term::clear_page\<close> on the active screen: every row of the page is cleared.\<close>

definition Screen_clear_page :: "yed_attrs \<Rightarrow> screen \<Rightarrow> screen option" where
  "Screen_clear_page a s = for_loop [1 .. height s] (Screen_clear_row a) s"

subsection \<open>The mutations of a screen, and its invariants\<close>

datatype mutation =
    ScrollUp | ScrollDown | InsertLine int | DeleteLine int
  | SetCell int int glyph | InsertCell int int glyph | DeleteCell int int
  | ClearRow int | ClearPage

fun mutate :: "yed_env \<Rightarrow> yed_attrs \<times> mutation \<Rightarrow> screen \<Rightarrow> screen option" where
  "mutate y (a, ScrollUp) s = Screen_scroll_up a s"
| "mutate y (a, ScrollDown) s = Screen_scroll_down a s"
| "mutate y (a, InsertLine row) s = Screen_insert_line a row s"
| "mutate y (a, DeleteLine row) s = Screen_delete_line a row s"
| "mutate y (a, SetCell row col g) s = Screen_set y a row col g s"
| "mutate y (a, InsertCell row col g) s = Screen_insert a row col g s"
| "mutate y (a, DeleteCell row col) s = Screen_del_cell a row col s"
| "mutate y (a, ClearRow row) s = Screen_clear_row a row s"
| "mutate y (a, ClearPage) s = Screen_clear_page a s"

text \<open>The number of stored lines is \<open>scrollback + height\<close>.\<close>

definition line_count_ok :: "screen \<Rightarrow> bool" where
  "line_count_ok s = (int (length (lines s)) = scrollback s + height s)"

text \<open>
  Row \<open>row\<close> of the visible page is stored at index \<open>scrollback + row - 1\<close>; the
  indices below \<open>scrollback\<close> are history.
\<close>

definition page_row :: "screen \<Rightarrow> int \<Rightarrow> line option" where
  "page_row s row = vec_at (lines s) (scrollback s + row - 1)"

definition history :: "screen \<Rightarrow> line list" where
  "history s = take (nat (scrollback s)) (lines s)"

text \<open>
  A sized screen: a page of at least one cell, the line count, every line at least as
  long as the page is wide, cursor and scroll region inside the page.
\<close>

definition screen_ok :: "screen \<Rightarrow> bool" where
  "screen_ok s =
     (1 \<le> width s \<and> 1 \<le> height s \<and> 0 \<le> scrollback s \<and> line_count_ok s
      \<and> list_all (\<lambda>l. width s \<le> int (length (cells l))) (lines s)
      \<and> 1 \<le> cursor_row s \<and> cursor_row s \<le> height s
      \<and> 1 \<le> cursor_col s \<and> cursor_col s \<le> width s
      \<and> 0 \<le> scroll_t s \<and> scroll_t s \<le> height s
      \<and> 0 \<le> scroll_b s \<and> scroll_b s \<le> height s)"

text \<open>An environment for concrete runs: single-column glyphs of one byte each.\<close>

definition ascii_env :: yed_env where
  "ascii_env = \<lparr> glyph_width = (\<lambda>_. 1), glyph_len = (\<lambda>_. 1), tab_width = 8 \<rparr>"

text \<open>What no cell or line operation changes: the geometry and the number of lines.\<close>

definition same_shape :: "screen \<Rightarrow> screen \<Rightarrow> bool" where
  "same_shape s s' = (length (lines s') = length (lines s) \<and> height s' = height s
      \<and> scrollback s' = scrollback s \<and> width s' = width s
      \<and> scroll_t s' = scroll_t s \<and> scroll_b s' = scroll_b s
      \<and> cursor_row s' = cursor_row s \<and> cursor_col s' = cursor_col s)"

text \<open>One run through every kind of mutation, for the concrete checks.\<close>

definition demo_ops :: "(yed_attrs \<times> mutation) list" where
  "demo_ops = map (Pair ZERO_ATTR)
     [SetCell 1 1 ''x'', ScrollUp, ScrollDown, InsertLine 1, DeleteLine 2,
      InsertCell 1 1 ''y'', DeleteCell 2 1, ClearRow 1, ClearPage]"

text \<open>
  A small sized screen for the concrete checks: one history line above a page of two
  rows and two columns, all blank.
\<close>

definition demo_screen :: screen where
  "demo_screen = (new_Screen 1)\<lparr> lines := replicate 3 (blank_line 2 ZERO_ATTR), width := 2, height := 2 \<rparr>"

section \<open>The sequence decoders\<close>

text \<open>
  Each decoder scans a NUL-terminated byte window. The model receives the window without
  its terminator: the empty list is the window whose first byte is the NUL. The macro
  \<open>NEXT()\<close> steps to the next byte and leaves the scan (\<open>goto out\<close>) at the NUL,
  counting the byte in \<open>len\<close> otherwise.
\<close>

definition ESC :: char where
  "ESC = CHR 0x1B"

definition CTRL_G :: char where
  "CTRL_G = CHR 0x07"

definition CTRL_H :: char where
  "CTRL_H = CHR 0x08"

definition CTRL_O :: char where
  "CTRL_O = CHR 0x0F"

text \<open>Modelled from the spec: \<open>is_digit\<close> is a macro of the host's headers; digits are the decimal digits.\<close>

definition is_digit :: "char \<Rightarrow> bool" where
  "is_digit c = (48 \<le> (of_char c :: nat) \<and> (of_char c :: nat) \<le> 57)"

definition IS_DELIM :: "char \<Rightarrow> bool" where
  "IS_DELIM c = (c = CHR '';'' \<or> c = CHR '':'' \<or> c = CHR ''?'' \<or> c = CHR '' ''
      \<or> c = CHR ''>'' \<or> c = CHR ''!'' \<or> c = CHR ''%'')"

definition IS_FINAL :: "char \<Rightarrow> bool" where
  "IS_FINAL c = (0x40 \<le> (of_char c :: nat) \<and> (of_char c :: nat) \<le> 0x7E)"

text \<open>
  \<open>sscanf(sarg, "%ld", &arg)\<close> on a string of digits: its decimal value, which the C
  library holds at \<open>LONG_MAX\<close> when it is not representable.
\<close>

definition digit_val :: "char \<Rightarrow> int" where
  "digit_val c = int (of_char c) - 48"

definition sscanf_ld :: "string \<Rightarrow> int" where
  "sscanf_ld sarg =
     (let v = foldl (\<lambda>acc c. 10 * acc + digit_val c) 0 sarg
      in if v > LONG_MAX then LONG_MAX else v)"

definition MODE_RESET :: char where
  "MODE_RESET = CHR ''!''"

definition MODE_PRIV :: char where
  "MODE_PRIV = CHR ''?''"

definition MODE_XTERM :: char where
  "MODE_XTERM = CHR ''>''"

subsection \<open>CSI\<close>

record csi =
  args :: "int list"
  command :: char
  len :: nat
  complete :: bool
  mode :: char

definition csi_init :: csi where
  "csi_init = \<lparr> args = [], command = CHR 0x00, len = 0, complete = False, mode = CHR 0x00 \<rparr>"

text \<open>The \<open>switch\<close> of the first loop: a mode marker is recorded, a \<open>;\<close> pushes a zero.\<close>

definition csi_marker :: "char \<Rightarrow> csi \<Rightarrow> csi" where
  "csi_marker c r =
     (if c = CHR ''!'' then r\<lparr> mode := MODE_RESET \<rparr>
      else if c = CHR ''?'' then r\<lparr> mode := MODE_PRIV \<rparr>
      else if c = CHR ''>'' then r\<lparr> mode := MODE_XTERM \<rparr>
      else if c = CHR '';'' then r\<lparr> args := args r @ [0] \<rparr>
      else r)"

text \<open>
  The second loop, \<open>while (!IS_FINAL(c) && c != '\e')\<close>, and what follows it. The head
  of the list is the current byte \<open>c\<close>, already counted in \<open>len\<close>. The two inner loops
  consume the digits (\<open>takeWhile is_digit\<close>) and then the delimiters
  (\<open>takeWhile IS_DELIM\<close>); when either runs into the NUL the scan is left with every
  byte counted. An iteration that starts on a delimiter would push the value of an
  uninitialised variable: \<open>None\<close>.
\<close>

function csi_params :: "string \<Rightarrow> csi \<Rightarrow> csi option" where
  "csi_params cs r =
     (case cs of
        [] \<Rightarrow> Some r
      | c # _ \<Rightarrow>
          if IS_FINAL c then Some (r\<lparr> command := c, complete := True \<rparr>)
          else if c = ESC then Some (r\<lparr> len := len r - 1 \<rparr>)
          else if \<not> is_digit c \<and> \<not> IS_DELIM c then Some r
          else
            let sarg = takeWhile is_digit cs; cs1 = dropWhile is_digit cs in
            if cs1 = [] then Some (r\<lparr> len := len r + length sarg - 1 \<rparr>)
            else if sarg = [] then None
            else
              let r1 = r\<lparr> len := len r + length sarg, args := args r @ [sscanf_ld sarg] \<rparr>;
                  dl = takeWhile IS_DELIM cs1; cs2 = dropWhile IS_DELIM cs1 in
              if cs2 = [] then Some (r1\<lparr> len := len r1 + length dl - 1 \<rparr>)
              else csi_params cs2 (r1\<lparr> len := len r1 + length dl \<rparr>))"
  by pat_completeness auto
termination
proof (relation "measure (\<lambda>(cs, r). length cs)")
  show "wf (measure (\<lambda>(cs, r). length cs))" by simp
next
  fix cs :: string and r :: csi and c cs' sarg cs1 r1 dl cs2
  assume "cs = c # cs'" "sarg = takeWhile is_digit cs" "cs1 = dropWhile is_digit cs"
    "sarg \<noteq> []" "cs2 = dropWhile IS_DELIM cs1"
  then have "length cs1 < length cs"
    by (metis append_self_conv2 length_append less_add_same_cancel2 length_greater_0_conv
        takeWhile_dropWhile_id)
  moreover from \<open>cs2 = dropWhile IS_DELIM cs1\<close> have "length cs2 \<le> length cs1"
    by (simp add: length_dropWhile_le)
  ultimately show "((cs2, r1\<lparr> len := len r1 + length dl \<rparr>), (cs, r)) \<in> measure (\<lambda>(cs, r). length cs)"
    by simp
qed

declare csi_params.simps [simp del]

text \<open>The first loop, \<open>while (IS_DELIM(c))\<close>, which then enters the second.\<close>

fun csi_markers :: "string \<Rightarrow> csi \<Rightarrow> csi option" where
  "csi_markers [] r = Some r"
| "csi_markers (c # cs) r =
     (if IS_DELIM c
      then (let r' = csi_marker c r
            in if cs = [] then Some r' else csi_markers cs (r'\<lparr> len := len r' + 1 \<rparr>))
      else csi_params (c # cs) r)"

text \<open>The constructor \<open>CSI(str)\<close>.\<close>

definition CSI :: "string \<Rightarrow> csi option" where
  "CSI str = (if str = [] then Some csi_init else csi_markers str (csi_init\<lparr> len := 1 \<rparr>))"

definition CSI_args :: "string \<Rightarrow> int list" where
  "CSI_args str = (case CSI str of None \<Rightarrow> [] | Some r \<Rightarrow> args r)"

section \<open>Term\<close>

text \<open>
  The terminal: the two screens and which of them is active (\<open>_screen\<close>), the shared
  attributes, the mode flags, the byte buffer filled by the reader thread, and the
  function-static leftovers of \<open>update\<close> (\<open>incomplete_csi\<close>, \<open>incomplete_esc\<close>,
  \<open>incomplete_utf8\<close>). The bytes written to the PTY master are collected in
  \<open>master_out\<close>, those printed to the standard output in \<open>std_out\<close>. Process and
  thread handles are outside the model.
\<close>

record terminal =
  data_buff :: string
  delay_update :: bool
  current_attrs :: yed_attrs
  main_screen :: screen
  alt_screen :: screen
  alt_active :: bool
  app_keys :: bool
  auto_wrap :: bool
  wrap_next :: bool
  title :: string
  master_out :: string
  std_out :: string
  incomplete_csi :: string
  incomplete_esc :: bool
  incomplete_utf8 :: string

definition Term_screen :: "terminal \<Rightarrow> screen" where
  "Term_screen t = (if alt_active t then alt_screen t else main_screen t)"

definition put_screen :: "screen \<Rightarrow> terminal \<Rightarrow> terminal" where
  "put_screen s t = (if alt_active t then t\<lparr> alt_screen := s \<rparr> else t\<lparr> main_screen := s \<rparr>)"

text \<open>\<open>write(this->master_fd, bytes, n)\<close>.\<close>

definition write_master :: "string \<Rightarrow> terminal \<Rightarrow> terminal" where
  "write_master bytes t = t\<lparr> master_out := master_out t @ bytes \<rparr>"

subsection \<open>Key encoder\<close>

text \<open>
  Modelled from the spec: the key codes (\<open>ARROW_UP\<close>, ... , \<open>MENU_KEY\<close>) and the mouse
  macros \<open>IS_MOUSE\<close> and \<open>MOUSE_BUTTON\<close> are declared in the host's headers. The keys
  that the encoder names are constructors; \<open>MOUSE b\<close> is a key code that
  \<open>IS_MOUSE\<close> accepts, with button \<open>b\<close>; \<open>KEY k\<close> is any other key code \<open>k\<close>, a
  printable key being the code of its character.
\<close>

datatype mouse_button = MOUSE_WHEEL_UP | MOUSE_WHEEL_DOWN | MOUSE_BUTTON_OTHER

datatype key =
    ARROW_UP | ARROW_DOWN | ARROW_RIGHT | ARROW_LEFT | DEL_KEY | HOME_KEY | END_KEY
  | PAGE_UP | PAGE_DOWN | SHIFT_TAB
  | FN1 | FN2 | FN3 | FN4 | FN5 | FN6 | FN7 | FN8 | FN9 | FN10 | FN11 | FN12
  | MENU_KEY | MOUSE mouse_button | KEY int

text \<open>The mouse wheel becomes an arrow key; any other mouse event is skipped.\<close>

fun remap_mouse :: "key \<Rightarrow> key option" where
  "remap_mouse (MOUSE MOUSE_WHEEL_UP) = Some ARROW_UP"
| "remap_mouse (MOUSE MOUSE_WHEEL_DOWN) = Some ARROW_DOWN"
| "remap_mouse (MOUSE MOUSE_BUTTON_OTHER) = None"
| "remap_mouse k = Some k"

text \<open>The first \<open>switch\<close>: the two-byte prefix of the arrow, Home and End keys.\<close>

fun key_prefix :: "bool \<Rightarrow> key \<Rightarrow> string" where
  "key_prefix app ARROW_UP = [ESC, if app then CHR ''O'' else CHR ''['']"
| "key_prefix app ARROW_DOWN = [ESC, if app then CHR ''O'' else CHR ''['']"
| "key_prefix app ARROW_RIGHT = [ESC, if app then CHR ''O'' else CHR ''['']"
| "key_prefix app ARROW_LEFT = [ESC, if app then CHR ''O'' else CHR ''['']"
| "key_prefix app HOME_KEY = [ESC, if app then CHR ''O'' else CHR ''['']"
| "key_prefix app END_KEY = [ESC, if app then CHR ''O'' else CHR ''['']"
| "key_prefix app k = []"

text \<open>The second \<open>switch\<close>; its default writes the key code converted to a \<open>char\<close>.\<close>

fun key_suffix :: "key \<Rightarrow> string" where
  "key_suffix ARROW_UP = ''A''"
| "key_suffix ARROW_DOWN = ''B''"
| "key_suffix ARROW_RIGHT = ''C''"
| "key_suffix ARROW_LEFT = ''D''"
| "key_suffix DEL_KEY = ''P''"
| "key_suffix HOME_KEY = ''H''"
| "key_suffix END_KEY = ''F''"
| "key_suffix PAGE_UP = ESC # ''[5~''"
| "key_suffix PAGE_DOWN = ESC # ''[6~''"
| "key_suffix SHIFT_TAB = ESC # ''[Z''"
| "key_suffix FN1 = ESC # ''OP''"
| "key_suffix FN2 = ESC # ''OQ''"
| "key_suffix FN3 = ESC # ''OR''"
| "key_suffix FN4 = ESC # ''OS''"
| "key_suffix FN5 = ESC # ''[15~''"
| "key_suffix FN6 = ESC # ''[17~''"
| "key_suffix FN7 = ESC # ''[18~''"
| "key_suffix FN8 = ESC # ''[19~''"
| "key_suffix FN9 = ESC # ''[20~''"
| "key_suffix FN10 = ESC # ''[21~''"
| "key_suffix FN11 = ESC # ''[23~''"
| "key_suffix FN12 = ESC # ''[24~''"
| "key_suffix MENU_KEY = ESC # ''[29~''"
| "key_suffix (KEY k) = [char_of k]"
| "key_suffix (MOUSE b) = []"

definition key_bytes :: "bool \<Rightarrow> key \<Rightarrow> string" where
  "key_bytes app k = key_prefix app k @ key_suffix k"

definition Term_keys :: "key list \<Rightarrow> terminal \<Rightarrow> terminal" where
  "Term_keys ks t =
     fold (\<lambda>k t. case remap_mouse k of
                    None \<Rightarrow> t
                  | Some k' \<Rightarrow> write_master (key_bytes (app_keys t) k') t) ks t"

text \<open>A CSI sequence on the wire: \<open>ESC [\<close> and at least one more byte.\<close>

definition is_csi_sequence :: "string \<Rightarrow> bool" where
  "is_csi_sequence bs = (length bs \<ge> 3 \<and> take 2 bs = [ESC, CHR ''[''])"

definition printable :: "int \<Rightarrow> bool" where
  "printable k = (32 \<le> k \<and> k \<le> 126)"

subsection \<open>Operations on the active screen\<close>

definition on_screen :: "(screen \<Rightarrow> screen option) \<Rightarrow> terminal \<Rightarrow> terminal option" where
  "on_screen f t = map_option (\<lambda>s. put_screen s t) (f (Term_screen t))"

definition Term_move_cursor :: "int \<Rightarrow> int \<Rightarrow> bool \<Rightarrow> terminal \<Rightarrow> terminal option" where
  "Term_move_cursor rows cols cancel_wrap t = do {
     t' \<leftarrow> on_screen (Screen_move_cursor rows cols) t;
     Some (if cancel_wrap then t'\<lparr> wrap_next := False \<rparr> else t')
   }"

definition Term_set_cursor :: "int \<Rightarrow> int \<Rightarrow> terminal \<Rightarrow> terminal" where
  "Term_set_cursor row col t =
     (put_screen (Screen_set_cursor row col (Term_screen t)) t)\<lparr> wrap_next := False \<rparr>"

definition Term_save_cursor :: "terminal \<Rightarrow> terminal" where
  "Term_save_cursor t = put_screen (Screen_save_cursor (current_attrs t) (Term_screen t)) t"

definition Term_restore_cursor :: "terminal \<Rightarrow> terminal" where
  "Term_restore_cursor t =
     (case Screen_restore_cursor (Term_screen t) of
        (s, a) \<Rightarrow> (put_screen s t)\<lparr> current_attrs := a \<rparr>)"

definition Term_set_scroll :: "int \<Rightarrow> int \<Rightarrow> terminal \<Rightarrow> terminal" where
  "Term_set_scroll top_row bottom_row t =
     put_screen (Screen_set_scroll top_row bottom_row (Term_screen t)) t"

definition Term_row :: "terminal \<Rightarrow> int" where
  "Term_row t = cursor_row (Term_screen t)"

definition Term_col :: "terminal \<Rightarrow> int" where
  "Term_col t = cursor_col (Term_screen t)"

definition Term_height :: "terminal \<Rightarrow> int" where
  "Term_height t = height (Term_screen t)"

definition Term_width :: "terminal \<Rightarrow> int" where
  "Term_width t = width (Term_screen t)"

definition Term_sctop :: "terminal \<Rightarrow> int" where
  "Term_sctop t = sctop (Term_screen t)"

definition Term_scbottom :: "terminal \<Rightarrow> int" where
  "Term_scbottom t = scbottom (Term_screen t)"

definition Term_clear_row :: "int \<Rightarrow> terminal \<Rightarrow> terminal option" where
  "Term_clear_row row t = on_screen (Screen_clear_row (current_attrs t) row) t"

definition Term_clear_page :: "terminal \<Rightarrow> terminal option" where
  "Term_clear_page t = on_screen (Screen_clear_page (current_attrs t)) t"

definition Term_reset :: "terminal \<Rightarrow> terminal option" where
  "Term_reset t =
     Term_clear_page
       (Term_set_cursor 1 1
          (Term_set_scroll 0 0
             (t\<lparr> current_attrs := ZERO_ATTR, app_keys := False, auto_wrap := True,
                 wrap_next := False \<rparr>)))"

definition Term_insert_cell :: "int \<Rightarrow> int \<Rightarrow> glyph \<Rightarrow> terminal \<Rightarrow> terminal option" where
  "Term_insert_cell row col g t = on_screen (Screen_insert (current_attrs t) row col g) t"

definition Term_set_cell :: "yed_env \<Rightarrow> int \<Rightarrow> int \<Rightarrow> glyph \<Rightarrow> terminal \<Rightarrow> terminal option" where
  "Term_set_cell y row col g t = on_screen (Screen_set y (current_attrs t) row col g) t"

definition Term_set_current_cell :: "yed_env \<Rightarrow> glyph \<Rightarrow> terminal \<Rightarrow> terminal option" where
  "Term_set_current_cell y g t = on_screen (Screen_set_current_cell y (current_attrs t) g) t"

definition Term_delete_cell :: "int \<Rightarrow> int \<Rightarrow> terminal \<Rightarrow> terminal option" where
  "Term_delete_cell row col t = on_screen (Screen_del_cell (current_attrs t) row col) t"

definition Term_delete_current_cell :: "terminal \<Rightarrow> terminal option" where
  "Term_delete_current_cell t = Term_delete_cell (Term_row t) (Term_col t) t"

definition Term_scroll_up :: "terminal \<Rightarrow> terminal option" where
  "Term_scroll_up t = on_screen (Screen_scroll_up (current_attrs t)) t"

definition Term_scroll_down :: "terminal \<Rightarrow> terminal option" where
  "Term_scroll_down t = on_screen (Screen_scroll_down (current_attrs t)) t"

definition Term_insert_line :: "int \<Rightarrow> terminal \<Rightarrow> terminal option" where
  "Term_insert_line row t = on_screen (Screen_insert_line (current_attrs t) row) t"

definition Term_delete_line :: "int \<Rightarrow> terminal \<Rightarrow> terminal option" where
  "Term_delete_line row t = on_screen (Screen_delete_line (current_attrs t) row) t"

definition Term_make_dirty :: "terminal \<Rightarrow> terminal" where
  "Term_make_dirty t = put_screen (Screen_make_dirty (Term_screen t)) t"

subsection \<open>SGR\<close>

text \<open>
  Modelled from the spec: \<open>RGB_32\<close> is a macro of the host's headers; it packs the
  three components of a colour into one word.
\<close>

definition RGB_32 :: "int \<Rightarrow> int \<Rightarrow> int \<Rightarrow> 32 word" where
  "RGB_32 r g b = push_bit 16 (word_of_int r) OR push_bit 8 (word_of_int g) OR word_of_int b"

text \<open>
  The codes of the SGR \<open>switch\<close> other than 38 and 48; \<open>None\<close> is its \<open>default\<close>,
  which leaves the command (\<open>goto unhandled\<close>).
\<close>

definition sgr_simple :: "int \<Rightarrow> yed_attrs \<Rightarrow> yed_attrs option" where
  "sgr_simple cmd a =
     (if cmd = 0 then Some ZERO_ATTR
      else if cmd = 1 then Some (a\<lparr> ATTR_BOLD := True \<rparr>)
      else if cmd = 4 then Some (a\<lparr> ATTR_UNDERLINE := True \<rparr>)
      else if cmd = 7 then Some (a\<lparr> ATTR_INVERSE := True \<rparr>)
      else if cmd \<in> {2, 3, 5, 6, 8, 9} then Some a
      else if cmd = 22 then Some (a\<lparr> ATTR_BOLD := False \<rparr>)
      else if cmd = 24 then Some (a\<lparr> ATTR_UNDERLINE := False \<rparr>)
      else if cmd = 27 then Some (a\<lparr> ATTR_INVERSE := False \<rparr>)
      else if cmd \<in> {23, 25, 26, 28, 29} then Some a
      else if 30 \<le> cmd \<and> cmd \<le> 37
        then Some (a\<lparr> ATTR_16_LIGHT_FG := False, FG_KIND := ATTR_KIND_16, fg := word_of_int cmd \<rparr>)
      else if cmd = 39 then Some (a\<lparr> FG_KIND := ATTR_KIND_NONE, fg := 0 \<rparr>)
      else if 40 \<le> cmd \<and> cmd \<le> 47
        then Some (a\<lparr> ATTR_16_LIGHT_BG := False, BG_KIND := ATTR_KIND_16,
                      bg := word_of_int (cmd - 10) \<rparr>)
      else if cmd = 49 then Some (a\<lparr> BG_KIND := ATTR_KIND_NONE, bg := 0 \<rparr>)
      else if 90 \<le> cmd \<and> cmd \<le> 97
        then Some (a\<lparr> FG_KIND := ATTR_KIND_16, ATTR_16_LIGHT_FG := True,
                      fg := word_of_int (cmd - 60) \<rparr>)
      else if 100 \<le> cmd \<and> cmd \<le> 107
        then Some (a\<lparr> BG_KIND := ATTR_KIND_16, ATTR_16_LIGHT_BG := True,
                      bg := word_of_int (cmd - 70) \<rparr>)
      else None)"

definition set_fg :: "color_kind \<Rightarrow> 32 word \<Rightarrow> yed_attrs \<Rightarrow> yed_attrs" where
  "set_fg k v a =
     a\<lparr> FG_KIND := k, fg := v, ATTR_16_LIGHT_FG := False, ATTR_16_LIGHT_BG := False \<rparr>"

definition set_bg :: "color_kind \<Rightarrow> 32 word \<Rightarrow> yed_attrs \<Rightarrow> yed_attrs" where
  "set_bg k v a =
     a\<lparr> BG_KIND := k, bg := v, ATTR_16_LIGHT_FG := False, ATTR_16_LIGHT_BG := False \<rparr>"

text \<open>
  The loop \<open>while (csi.args.size())\<close> of the command \<open>m\<close>. The list is what is left of
  \<open>csi.args\<close>; each code is read as \<open>csi.args[0]\<close> and shifted out. Codes 38 and 48
  read their sub-selector and its components the same way, without looking at the
  size: on an empty list that read is outside the vector (\<open>None\<close>). \<open>SHIFT()\<close> itself
  does test the size.
\<close>

fun sgr_loop :: "int list \<Rightarrow> yed_attrs \<Rightarrow> yed_attrs option" where
  "sgr_loop [] a = Some a"
| "sgr_loop (cmd # as) a =
     (if cmd = 38 \<or> cmd = 48 then
        (case as of
           [] \<Rightarrow> None
         | which # as1 \<Rightarrow>
             if which = 2 then
               (case as1 of
                  r # g # b # as4 \<Rightarrow>
                    sgr_loop as4 ((if cmd = 38 then set_fg else set_bg) ATTR_KIND_RGB (RGB_32 r g b) a)
                | _ \<Rightarrow> None)
             else if which = 5 then
               (case as1 of
                  n # as2 \<Rightarrow>
                    sgr_loop as2 ((if cmd = 38 then set_fg else set_bg) ATTR_KIND_256 (word_of_int n) a)
                | [] \<Rightarrow> None)
             else sgr_loop as1 a)
      else
        (case sgr_simple cmd a of
           None \<Rightarrow> Some a
         | Some a' \<Rightarrow> sgr_loop as a'))"

definition csi_m :: "int list \<Rightarrow> terminal \<Rightarrow> terminal option" where
  "csi_m as t = do {
     a \<leftarrow> sgr_loop (if as = [] then [0] else as) (current_attrs t);
     Some (t\<lparr> current_attrs := a \<rparr>)
   }"

subsection \<open>CSI dispatch\<close>

text \<open>\<open>csi.args.size() ? csi.args[0] : d\<close>.\<close>

definition arg0 :: "int \<Rightarrow> int list \<Rightarrow> int" where
  "arg0 d as = (case as of [] \<Rightarrow> d | a # _ \<Rightarrow> a)"

text \<open>\<open>std::to_string\<close> of an \<open>int\<close>.\<close>

fun nat_digits :: "nat \<Rightarrow> string" where
  "nat_digits n =
     (if n < 10 then [char_of (48 + n)] else nat_digits (n div 10) @ [char_of (48 + n mod 10)])"

declare nat_digits.simps [simp del]

definition to_string :: "int \<Rightarrow> string" where
  "to_string v = (if v < 0 then CHR ''-'' # nat_digits (nat (- v)) else nat_digits (nat v))"

text \<open>
  \<open>J\<close> and \<open>K\<close> with argument 0 or none: the rows below the cursor are cleared from
  the last one upwards (\<open>J\<close> only), then the cells of the cursor's row are blanked
  from the last column down to the cursor. The loop bodies leave the cursor and the
  size as they are, so the bounds are those at loop entry.
\<close>

definition erase_line_forward :: "yed_env \<Rightarrow> terminal \<Rightarrow> terminal option" where
  "erase_line_forward y t =
     for_loop (rev [Term_col t .. Term_width t]) (\<lambda>col t. Term_set_cell y (Term_row t) col [] t) t"

definition csi_J_0 :: "yed_env \<Rightarrow> terminal \<Rightarrow> terminal option" where
  "csi_J_0 y t = do {
     t1 \<leftarrow> for_loop (rev [Term_row t + 1 .. Term_height t]) Term_clear_row t;
     erase_line_forward y t1
   }"

text \<open>
  The column loop of \<open>J\<close> with argument 1,
  \<open>for (int col = 1; col >= this->col(); col += 1)\<close>: it runs while the counter is at
  or beyond the cursor's column and counts upwards; incrementing the counter at
  \<open>INT_MAX\<close> is a signed overflow.
\<close>

function csi_J_1_cols :: "yed_env \<Rightarrow> int \<Rightarrow> terminal \<Rightarrow> terminal option" where
  "csi_J_1_cols y col t =
     (if col \<ge> Term_col t
      then (case Term_set_cell y (Term_row t) col [] t of
              None \<Rightarrow> None
            | Some t' \<Rightarrow> if col < INT_MAX then csi_J_1_cols y (col + 1) t' else None)
      else Some t)"
  by pat_completeness auto
termination
  by (relation "measure (\<lambda>(y, col, t). nat (INT_MAX - col))") auto

declare csi_J_1_cols.simps [simp del]

definition csi_J_1 :: "yed_env \<Rightarrow> terminal \<Rightarrow> terminal option" where
  "csi_J_1 y t = do {
     t1 \<leftarrow> for_loop [1 .. Term_row t - 1] Term_clear_row t;
     csi_J_1_cols y 1 t1
   }"

definition csi_J :: "yed_env \<Rightarrow> int list \<Rightarrow> terminal \<Rightarrow> terminal option" where
  "csi_J y as t =
     (case as of
        [] \<Rightarrow> csi_J_0 y t
      | a # _ \<Rightarrow>
          if a = 0 then csi_J_0 y t
          else if a = 1 then csi_J_1 y t
          else if a = 2 then Term_clear_page t
          else Some t)"

definition csi_K_1 :: "yed_env \<Rightarrow> terminal \<Rightarrow> terminal option" where
  "csi_K_1 y t =
     for_loop [1 .. Term_col t] (\<lambda>col t. Term_set_cell y (Term_row t) col [] t) t"

definition csi_K :: "yed_env \<Rightarrow> int list \<Rightarrow> terminal \<Rightarrow> terminal option" where
  "csi_K y as t =
     (case as of
        [] \<Rightarrow> erase_line_forward y t
      | a # _ \<Rightarrow>
          if a = 0 then erase_line_forward y t
          else if a = 1 then csi_K_1 y t
          else if a = 2 then Term_clear_row (Term_row t) t
          else Some t)"

text \<open>DEC private modes, \<open>?h\<close> and \<open>?l\<close>.\<close>

definition csi_priv_h :: "int list \<Rightarrow> terminal \<Rightarrow> terminal option" where
  "csi_priv_h as t =
     (let val = arg0 1 as in
      if val = 1 then Some (t\<lparr> app_keys := True \<rparr>)
      else if val = 3 then Term_reset t
      else if val = 7 then Some (t\<lparr> auto_wrap := True \<rparr>)
      else if val = 12 \<or> val = 25 then Some t
      else if val = 1049 then
        map_option Term_make_dirty (Term_clear_page (Term_set_cursor 1 1 (t\<lparr> alt_active := True \<rparr>)))
      else Some t)"

definition csi_priv_l :: "int list \<Rightarrow> terminal \<Rightarrow> terminal option" where
  "csi_priv_l as t =
     (let val = arg0 1 as in
      if val = 1 then Some (t\<lparr> app_keys := False \<rparr>)
      else if val = 3 then Term_reset t
      else if val = 7 then Some (t\<lparr> auto_wrap := False \<rparr>)
      else if val = 12 \<or> val = 25 then Some t
      else if val = 1049 then Some (Term_make_dirty (t\<lparr> alt_active := False \<rparr>))
      else Some t)"

text \<open>
  The status queries (\<open>n\<close>). The \<open>switch\<close> is over the numeric argument, and its case
  labels are the character constants \<open>'5'\<close> and \<open>'6'\<close>.
\<close>

definition char_code :: "char \<Rightarrow> int" where
  "char_code c = int (of_char c)"

definition cursor_report :: "terminal \<Rightarrow> string" where
  "cursor_report t = ESC # ''['' @ to_string (Term_row t) @ '';'' @ to_string (Term_col t) @ ''R''"

definition csi_n :: "int list \<Rightarrow> terminal \<Rightarrow> terminal" where
  "csi_n as t =
     (let val = arg0 0 as in
      if val = char_code CHR ''5'' then write_master (ESC # ''[0n'') t
      else if val = char_code CHR ''6'' then write_master (cursor_report t) t
      else t)"

text \<open>Soft reset, \<open>!p\<close>.\<close>

definition csi_reset_p :: "terminal \<Rightarrow> terminal option" where
  "csi_reset_p t = do {
     t1 \<leftarrow> Term_clear_page
             (Term_set_scroll 0 0 (Term_set_cursor 1 1 (t\<lparr> current_attrs := ZERO_ATTR \<rparr>)));
     let t2 = t1\<lparr> app_keys := False, alt_active := False \<rparr>;
     Some (t2\<lparr> main_screen := Screen_make_dirty (main_screen t2) \<rparr>)
   }"

text \<open>Set scrolling region, \<open>r\<close>.\<close>

definition csi_r :: "int list \<Rightarrow> terminal \<Rightarrow> terminal" where
  "csi_r as t =
     (let t1 = Term_set_cursor 1 1 t in
      case as of
        [] \<Rightarrow> Term_set_scroll 0 0 t1
      | [a] \<Rightarrow> Term_set_scroll (long_to_int a) 0 t1
      | [a, b] \<Rightarrow> if b \<ge> a then Term_set_scroll (long_to_int a) (long_to_int b) t1 else t1
      | _ \<Rightarrow> t1)"

text \<open>Cursor position, \<open>H\<close> and \<open>f\<close>.\<close>

definition csi_H :: "int list \<Rightarrow> terminal \<Rightarrow> terminal" where
  "csi_H as t =
     (case as of
        [] \<Rightarrow> Term_set_cursor 1 1 t
      | [a] \<Rightarrow> Term_set_cursor (long_to_int a) 1 t
      | [a, b] \<Rightarrow> Term_set_cursor (long_to_int a) (long_to_int b) t
      | _ \<Rightarrow> t)"

text \<open>
  The \<open>switch\<close> over \<open>ENC(csi.command, csi.mode)\<close>: the final byte, tagged with the
  mode marker. Commands that the source ignores, leaves unhandled or does not recognise
  change nothing.
\<close>

definition execute_CSI_plain :: "yed_env \<Rightarrow> char \<Rightarrow> int list \<Rightarrow> terminal \<Rightarrow> terminal option" where
  "execute_CSI_plain y c as t =
     (if c = CHR ''@'' then do {
        t1 \<leftarrow> repeat_loop (arg0 1 as)
                (\<lambda>_ t. Term_insert_cell (Term_row t) (Term_col t) '' '' t)
                (t\<lparr> current_attrs := ZERO_ATTR \<rparr>);
        Some (t1\<lparr> current_attrs := current_attrs t \<rparr>)
      }
      else if c = CHR ''A'' then Term_move_cursor (long_to_int (- arg0 1 as)) 0 True t
      else if c = CHR ''B'' then Term_move_cursor (long_to_int (arg0 1 as)) 0 True t
      else if c = CHR ''c'' then Some (write_master (ESC # ''[?6c'') t)
      else if c = CHR ''C'' then Term_move_cursor 0 (long_to_int (arg0 1 as)) True t
      else if c = CHR ''D'' then Term_move_cursor 0 (long_to_int (- arg0 1 as)) True t
      else if c = CHR ''E'' then do {
        t1 \<leftarrow> Term_move_cursor (long_to_int (arg0 1 as)) 0 True t;
        Some (Term_set_cursor (Term_row t1) 1 t1)
      }
      else if c = CHR ''F'' then do {
        t1 \<leftarrow> Term_move_cursor (long_to_int (- arg0 1 as)) 0 True t;
        Some (Term_set_cursor (Term_row t1) 1 t1)
      }
      else if c = CHR ''d'' then Some (Term_set_cursor (long_to_int (arg0 1 as)) (Term_col t) t)
      else if c = CHR ''f'' \<or> c = CHR ''H'' then Some (csi_H as t)
      else if c = CHR ''G'' then Some (Term_set_cursor (Term_row t) (long_to_int (arg0 1 as)) t)
      else if c = CHR ''J'' then csi_J y as t
      else if c = CHR ''K'' then csi_K y as t
      else if c = CHR ''L'' then repeat_loop (arg0 1 as) (\<lambda>_ t. Term_insert_line (Term_row t) t) t
      else if c = CHR ''M'' then repeat_loop (arg0 1 as) (\<lambda>_ t. Term_delete_line (Term_row t) t) t
      else if c = CHR ''P'' then repeat_loop (arg0 1 as) (\<lambda>_. Term_delete_current_cell) t
      else if c = CHR ''m'' then csi_m as t
      else if c = CHR ''n'' then Some (csi_n as t)
      else if c = CHR ''r'' then Some (csi_r as t)
      else if c = CHR ''S'' then repeat_loop (arg0 1 as) (\<lambda>_. Term_scroll_up) t
      else if c = CHR ''T'' then repeat_loop (arg0 1 as) (\<lambda>_. Term_scroll_down) t
      else if c = CHR ''X'' then
        repeat_loop (arg0 1 as)
          (\<lambda>i t. do { col \<leftarrow> int_add (Term_col t) i; Term_set_cell y (Term_row t) col [] t }) t
      else Some t)"

definition execute_CSI :: "yed_env \<Rightarrow> csi \<Rightarrow> terminal \<Rightarrow> terminal option" where
  "execute_CSI y r t =
     (if mode r = CHR 0x00 then execute_CSI_plain y (command r) (args r) t
      else if mode r = MODE_PRIV then
        (if command r = CHR ''h'' then csi_priv_h (args r) t
         else if command r = CHR ''l'' then csi_priv_l (args r) t
         else Some t)
      else if mode r = MODE_XTERM then
        (if command r = CHR ''c'' then Some (write_master (ESC # ''[>0;0;0c'') t) else Some t)
      else if mode r = MODE_RESET then
        (if command r = CHR ''p'' then csi_reset_p t else Some t)
      else Some t)"

text \<open>
  A terminal as the constructor leaves it, on screens of the given size: the constructor
  ends with \<open>resize\<close>, which sets \<open>delay_update\<close>, so that the first \<open>update()\<close>
  decodes nothing and only takes the delay back.
\<close>

definition new_Term :: "screen \<Rightarrow> screen \<Rightarrow> terminal" where
  "new_Term ms as = \<lparr> data_buff = [], delay_update = True, current_attrs = ZERO_ATTR,
      main_screen = ms, alt_screen = as, alt_active = False, app_keys = False,
      auto_wrap = True, wrap_next = False, title = [], master_out = [], std_out = [],
      incomplete_csi = [], incomplete_esc = False, incomplete_utf8 = [] \<rparr>"

text \<open>The terminal after that first \<open>update()\<close>: from then on every update decodes.\<close>

definition started :: "terminal \<Rightarrow> terminal" where
  "started t = t\<lparr> delay_update := False \<rparr>"

text \<open>The small terminal for the concrete runs, after its first update.\<close>

definition demo_term :: terminal where
  "demo_term = started (new_Term demo_screen demo_screen)"

text \<open>
  The small terminal with text on its page: the rows read \<open>ab\<close> and \<open>cd\<close>, and the
  cursor stands at the given position.
\<close>

definition text_line :: "string \<Rightarrow> line" where
  "text_line txt = \<lparr> cells = map (\<lambda>c. \<lparr> glyph = [c], attrs = ZERO_ATTR \<rparr>) txt, dirty = False \<rparr>"

definition demo_text_term :: "int \<Rightarrow> int \<Rightarrow> terminal" where
  "demo_text_term row col =
     started (new_Term (demo_screen\<lparr> lines := [blank_line 2 ZERO_ATTR, text_line ''ab'', text_line ''cd''],
                            cursor_row := row, cursor_col := col \<rparr>) demo_screen)"

text \<open>The glyphs on the page of the active screen, row by row.\<close>

definition page_text :: "terminal \<Rightarrow> glyph list list" where
  "page_text t =
     map (\<lambda>l. map glyph (cells l)) (drop (nat (scrollback (Term_screen t))) (lines (Term_screen t)))"

text \<open>Decode the window that follows \<open>ESC [\<close> and execute it.\<close>

definition run_CSI :: "yed_env \<Rightarrow> string \<Rightarrow> terminal \<Rightarrow> terminal option" where
  "run_CSI y str t = do { r \<leftarrow> CSI str; execute_CSI y r t }"

subsection \<open>OSC and DCS\<close>

record osc =
  osc_command :: int
  osc_len :: nat
  osc_arg :: string
  osc_complete :: bool

definition osc_init :: osc where
  "osc_init = \<lparr> osc_command = 0, osc_len = 0, osc_arg = [], osc_complete = False \<rparr>"

text \<open>
  The constructor \<open>OSC(str)\<close>. The digits of the command are scanned first; the
  argument loop then starts on the \<open>;\<close> itself, so the argument text begins with it,
  and runs up to a BEL or an ESC. \<open>sscanf\<close> on an empty digit string leaves the
  command at 0.
\<close>

definition OSC :: "string \<Rightarrow> osc" where
  "OSC str =
     (if str = [] then osc_init
      else
        let scmd = takeWhile is_digit str; cs1 = dropWhile is_digit str in
        if cs1 = [] then osc_init\<lparr> osc_len := length str \<rparr>
        else
          let r = osc_init\<lparr> osc_command := (if scmd = [] then 0 else sscanf_ld scmd),
                           osc_len := length scmd + 1 \<rparr> in
          if hd cs1 \<noteq> CHR '';'' \<and> hd cs1 \<noteq> CTRL_G then r
          else
            let txt = takeWhile (\<lambda>c. c \<noteq> CTRL_G \<and> c \<noteq> ESC) cs1;
                cs2 = dropWhile (\<lambda>c. c \<noteq> CTRL_G \<and> c \<noteq> ESC) cs1;
                r1 = r\<lparr> osc_arg := txt \<rparr> in
            if cs2 = [] then r1\<lparr> osc_len := length str \<rparr>
            else
              let r2 = r1\<lparr> osc_len := length scmd + length txt + 1 \<rparr> in
              if hd cs2 = ESC then
                (if tl cs2 = [] then r2
                 else if hd (tl cs2) = CHR 0x5C
                   then r2\<lparr> osc_len := osc_len r2 + 1, osc_complete := True \<rparr>
                 else r2)
              else r2\<lparr> osc_complete := True \<rparr>)"

record dcs =
  dcs_len :: nat
  dcs_complete :: bool
  dcs_str :: string

text \<open>The constructor \<open>DCS(str)\<close>: everything up to \<open>ESC \\<close>.\<close>

definition DCS :: "string \<Rightarrow> dcs" where
  "DCS str =
     (if str = [] then \<lparr> dcs_len = 0, dcs_complete = False, dcs_str = [] \<rparr>
      else
        let txt = takeWhile (\<lambda>c. c \<noteq> ESC) str; cs1 = dropWhile (\<lambda>c. c \<noteq> ESC) str in
        if cs1 = [] then \<lparr> dcs_len = length str, dcs_complete = False, dcs_str = txt \<rparr>
        else if tl cs1 = [] then \<lparr> dcs_len = length txt + 1, dcs_complete = False, dcs_str = txt \<rparr>
        else if hd (tl cs1) = CHR 0x5C
          then \<lparr> dcs_len = length txt + 2, dcs_complete = True, dcs_str = txt \<rparr>
        else \<lparr> dcs_len = length txt + 1, dcs_complete = False, dcs_str = txt \<rparr>)"

text \<open>
  \<open>execute_OSC\<close>. The colour queries answer with a fixed white; \<open>printf\<close> with
  \<open>osc.arg.c_str() + 2\<close> reads beyond the argument when it is shorter than two bytes.
\<close>

definition execute_OSC :: "osc \<Rightarrow> terminal \<Rightarrow> terminal option" where
  "execute_OSC r t =
     (let cmd = osc_command r in
      if cmd = 0 then Some (t\<lparr> title := osc_arg r \<rparr>)
      else if cmd = 4 \<or> cmd = 10 \<or> cmd = 11 then
        Some (if osc_arg r = ''?''
              then write_master (ESC # '']'' @ to_string cmd @ '';rgb:255255/255255/255255'' @ [CTRL_G]) t
              else t)
      else if cmd = 52 then
        (if length (osc_arg r) < 2 then None
         else Some (t\<lparr> std_out := std_out t @ ESC # '']52;c;'' @ drop 2 (osc_arg r) @ [CTRL_G] \<rparr>))
      else Some t)"

subsection \<open>The decode loop\<close>

text \<open>
  Modelled from the spec: \<open>iscntrl\<close> of the C library, on a byte: the codes below 32
  and 127.
\<close>

definition iscntrl :: "char \<Rightarrow> bool" where
  "iscntrl c = ((of_char c :: nat) < 32 \<or> (of_char c :: nat) = 127)"

text \<open>\<open>a % b\<close> in C++: the remainder of the division that truncates; undefined for \<open>b = 0\<close>.\<close>

definition c_rem :: "int \<Rightarrow> int \<Rightarrow> int option" where
  "c_rem a b = (if b = 0 then None else Some (sgn a * (\<bar>a\<bar> mod \<bar>b\<bar>)))"

text \<open>
  The block at the labels \<open>put\<close> and \<open>put_utf8\<close> that places a glyph: a pending
  deferred wrap is carried out first, the glyph is stored at the cursor, and then either
  the wrap is deferred or the cursor moves on by the glyph's width.
\<close>

definition wrap_line :: "terminal \<Rightarrow> terminal option" where
  "wrap_line t = do {
     t1 \<leftarrow> (if Term_row t = Term_scbottom t then Term_scroll_up t
            else Term_move_cursor 1 0 True t);
     Some (Term_set_cursor (Term_row t1) 1 t1)
   }"

definition wrap_pending :: "terminal \<Rightarrow> terminal option" where
  "wrap_pending t =
     (if wrap_next t
      then do {
        t' \<leftarrow> (if Term_col t = Term_width t then wrap_line t else Some t);
        Some (t'\<lparr> wrap_next := False \<rparr>)
      }
      else Some t)"

definition place_glyph :: "yed_env \<Rightarrow> glyph \<Rightarrow> terminal \<Rightarrow> terminal option" where
  "place_glyph y g t = do {
     t2 \<leftarrow> Term_set_current_cell y g t;
     (if Term_col t2 = Term_width t2 \<and> auto_wrap t2 then Some (t2\<lparr> wrap_next := True \<rparr>)
      else Term_move_cursor 0 (glyph_width y g) False t2)
   }"

definition put_glyph :: "yed_env \<Rightarrow> glyph \<Rightarrow> terminal \<Rightarrow> terminal option" where
  "put_glyph y g t = do { t1 \<leftarrow> wrap_pending t; place_glyph y g t1 }"

text \<open>Line feed (\<open>\n\<close>, \<open>\v\<close>, \<open>\f\<close>, and \<open>ESC D\<close>).\<close>

definition line_feed :: "terminal \<Rightarrow> terminal option" where
  "line_feed t =
     (if Term_row t = Term_scbottom t then Term_scroll_up t else Term_move_cursor 1 0 True t)"

text \<open>
  The \<open>do ... while\<close> loop of the tab: blanks are written up to the next tab stop or
  the last column.
\<close>

partial_function (option) tab_loop :: "yed_env \<Rightarrow> terminal \<Rightarrow> terminal option" where
  "tab_loop y t =
     (if Term_col t = Term_width t then Some t
      else do {
        t1 \<leftarrow> Term_set_current_cell y '' '' t;
        t2 \<leftarrow> Term_move_cursor 0 1 True t1;
        m \<leftarrow> c_rem (Term_col t2) (tab_width y);
        (if m \<noteq> 1 then tab_loop y t2 else Some t2)
      })"

declare tab_loop.simps [code]

text \<open>The local variables of \<open>update\<close> that live across the glyphs of one chunk.\<close>

record locals =
  dectst :: bool
  setcharset :: bool
  last_c :: char
  csi_countdown :: nat

definition locals_init :: locals where
  "locals_init = \<lparr> dectst = False, setcharset = False, last_c = CHR 0x00, csi_countdown = 0 \<rparr>"

text \<open>The NUL-terminated window that starts at index \<open>i\<close> of the buffer.\<close>

definition c_str :: "string \<Rightarrow> nat \<Rightarrow> string" where
  "c_str buff i = takeWhile (\<lambda>c. c \<noteq> CHR 0x00) (drop i buff)"

text \<open>
  An escape sequence that is not complete: when the byte behind the scanned part is the
  NUL, the raw prefix is saved for the next chunk. The count of glyphs to skip is then
  the size of \<open>incomplete_csi\<close>.
\<close>

definition save_incomplete :: "string \<Rightarrow> string \<Rightarrow> nat \<Rightarrow> nat \<Rightarrow> locals \<times> terminal \<Rightarrow> (locals \<times> terminal) option" where
  "save_incomplete intro buff i n Lt =
     (case Lt of (L, t) \<Rightarrow> do {
        c \<leftarrow> vec_at buff (int (i + 1 + n));
        let t' = (if c = CHR 0x00
                  then t\<lparr> incomplete_csi := intro @ take n (drop (i + 1) buff) \<rparr> else t);
        Some (L\<lparr> csi_countdown := length (incomplete_csi t') \<rparr>, t')
      })"

text \<open>The \<open>switch\<close> on the byte that follows an ESC; \<open>None\<close> in the inner option is its \<open>default\<close>, which goes to \<open>put\<close>.\<close>

definition after_esc :: "yed_env \<Rightarrow> string \<Rightarrow> nat \<Rightarrow> char \<Rightarrow> locals \<Rightarrow> terminal \<Rightarrow> (locals \<times> terminal) option option" where
  "after_esc y buff i c L t =
     (if c = CHR 0x5C then Some (Some (L, t))
      else if c = CHR ''['' then
        (case CSI (c_str buff (i + 1)) of
           None \<Rightarrow> None
         | Some r \<Rightarrow>
             if complete r
             then map_option (\<lambda>t'. Some (L\<lparr> csi_countdown := len r \<rparr>, t')) (execute_CSI y r t)
             else map_option Some (save_incomplete (ESC # ''['') buff i (len r) (L, t)))
      else if c = CHR '']'' then
        (let r = OSC (c_str buff (i + 1)); L1 = L\<lparr> csi_countdown := osc_len r \<rparr> in
         if osc_complete r then map_option (\<lambda>t'. Some (L1, t')) (execute_OSC r t)
         else map_option Some (save_incomplete (ESC # '']'') buff i (osc_len r) (L1, t)))
      else if c = CHR ''k'' \<or> c = CHR ''P'' then
        (let r = DCS (c_str buff (i + 1)); L1 = L\<lparr> csi_countdown := dcs_len r \<rparr> in
         if dcs_complete r then Some (Some (L1, t))
         else Some (Some (L1, t\<lparr> incomplete_csi := ESC # ''P'' @ take (dcs_len r) (drop (i + 1) buff) \<rparr>)))
      else if c = CHR ''#'' then Some (Some (L\<lparr> dectst := True \<rparr>, t))
      else if c = CHR ''='' \<or> c = CHR ''>'' then Some (Some (L, t))
      else if c = CHR ''('' then Some (Some (L\<lparr> setcharset := True \<rparr>, t))
      else if c = CHR ''7'' then Some (Some (L, Term_save_cursor t))
      else if c = CHR ''8'' then
        Some (Some (L, if cursor_saved (Term_screen t) then Term_restore_cursor t
                       else (Term_set_cursor 1 1 t)\<lparr> current_attrs := ZERO_ATTR \<rparr>))
      else if c = CHR ''D'' \<or> c = CHR ''E'' then
        map_option (\<lambda>t1. Some (L, if c = CHR ''E'' then Term_set_cursor (Term_row t1) 1 t1 else t1))
          (line_feed t)
      else if c = CHR ''M'' then
        map_option (\<lambda>t1. Some (L, t1))
          (if Term_row t = Term_sctop t then Term_scroll_down t else Term_move_cursor (- 1) 0 True t)
      else if c = CHR ''g'' then Some (Some (L, t))
      else Some None)"

text \<open>
  The label \<open>put\<close> and what follows it, for the glyph of \<open>n\<close> bytes at index \<open>i\<close>.
  A glyph of several bytes that reaches the end of the chunk is kept for the next one:
  its \<open>n\<close> bytes are copied from the buffer, whose last element is the NUL at index
  \<open>length buff - 1\<close>.
\<close>

definition put_at :: "yed_env \<Rightarrow> string \<Rightarrow> nat \<Rightarrow> nat \<Rightarrow> terminal \<Rightarrow> terminal option" where
  "put_at y buff i n t =
     (if n > 1 \<and> i + n \<ge> length buff - 1 then
        (if i + n > length buff then None
         else Some (t\<lparr> incomplete_utf8 := incomplete_utf8 t @ take n (drop i buff) \<rparr>))
      else put_glyph y (take n (drop i buff)) t)"

text \<open>The main \<open>switch (c)\<close>, for a single-byte glyph that does not follow an ESC.\<close>

definition plain_byte :: "yed_env \<Rightarrow> string \<Rightarrow> nat \<Rightarrow> char \<Rightarrow> terminal \<Rightarrow> terminal option" where
  "plain_byte y buff i c t =
     (if c = CHR 0x00 then Some t
      else if c = ESC then do {
        nxt \<leftarrow> vec_at buff (int (i + 1));
        Some (t\<lparr> incomplete_csi := (if nxt = CHR 0x00 then [ESC] else []) \<rparr>)
      }
      else if c = CHR 0x0D then Some (Term_set_cursor (Term_row t) 1 t)
      else if c = CTRL_H then Term_move_cursor 0 (- 1) True t
      else if c = CHR 0x0C \<or> c = CHR 0x0B \<or> c = CHR 0x0A then line_feed t
      else if c = CHR 0x09 then tab_loop y t
      else if c = CTRL_G \<or> c = CTRL_O then Some t
      else if iscntrl c then Some t
      else put_at y buff i 1 t)"

text \<open>
  One pass of the loop body for the glyph at index \<open>i\<close>, of \<open>n\<close> bytes. A glyph that
  is skipped by the countdown does not become \<open>last\<close>.
\<close>

definition glyph_step :: "yed_env \<Rightarrow> string \<Rightarrow> nat \<Rightarrow> nat \<Rightarrow> locals \<Rightarrow> terminal \<Rightarrow> (locals \<times> terminal) option" where
  "glyph_step y buff i n L t =
     (if csi_countdown L > 0 then Some (L\<lparr> csi_countdown := csi_countdown L - 1 \<rparr>, t)
      else do {
        c \<leftarrow> vec_at buff (int i);
        (L', t') \<leftarrow>
          (if n > 1 then map_option (Pair L) (put_at y buff i n t)
           else if dectst L then
             map_option (Pair (L\<lparr> dectst := False \<rparr>))
               (if c = CHR ''8'' then do {
                  t1 \<leftarrow> Term_reset t;
                  for_loop [1 .. Term_height t1]
                    (\<lambda>row t. for_loop (rev [Term_col t .. Term_width t])
                                (\<lambda>col. Term_set_cell y row col ''E'') t) t1
                }
                else Some t)
           else if setcharset L then Some (L\<lparr> setcharset := False \<rparr>, t)
           else if last_c L = ESC then
             (case after_esc y buff i c L t of
                None \<Rightarrow> None
              | Some (Some Lt) \<Rightarrow> Some Lt
              | Some None \<Rightarrow>
                  map_option (Pair L) (if iscntrl c then Some t else put_at y buff i n t))
           else map_option (Pair L) (plain_byte y buff i c t));
        Some (L'\<lparr> last_c := c \<rparr>, t')
      })"

text \<open>
  Modelled from the spec: \<open>yed_glyph_traverse_n\<close> is a macro of the host's headers;
  it visits the glyphs of the first \<open>len\<close> bytes of the buffer, stepping by the UTF-8
  length of each glyph (at least one byte).
\<close>

function update_loop :: "yed_env \<Rightarrow> string \<Rightarrow> nat \<Rightarrow> locals \<Rightarrow> terminal \<Rightarrow> terminal option" where
  "update_loop y buff i L t =
     (if i < length buff - 1
      then (let n = max 1 (glyph_len y (drop i buff)) in
            case glyph_step y buff i n L t of
              None \<Rightarrow> None
            | Some (L', t') \<Rightarrow> update_loop y buff (i + n) L' t')
      else Some t)"
  by pat_completeness auto
termination
  by (relation "measure (\<lambda>(y, buff, i, L, t). length buff - i)") auto

declare update_loop.simps [simp del]

text \<open>\<open>write_to_buffer\<close> copies the dirty lines to the host's buffer and clears their flags.\<close>

definition Term_write_to_buffer :: "terminal \<Rightarrow> terminal" where
  "Term_write_to_buffer t =
     put_screen ((Term_screen t)\<lparr> lines := map (\<lambda>l. l\<lparr> dirty := False \<rparr>) (lines (Term_screen t)) \<rparr>) t"

text \<open>
  The head of \<open>update\<close>: the chunk is taken from \<open>data_buff\<close>; one kind of leftover,
  in the order ESC, escape sequence, UTF-8 tail, is put in front of it; a trailing ESC
  is taken off and remembered.
\<close>

definition take_chunk :: "terminal \<Rightarrow> string \<times> terminal" where
  "take_chunk t =
     (let buff = data_buff t; t0 = t\<lparr> data_buff := [] \<rparr>;
          (buff1, t1) =
            (if incomplete_esc t0 then (ESC # buff, t0\<lparr> incomplete_esc := False \<rparr>)
             else if incomplete_csi t0 \<noteq> [] then (incomplete_csi t0 @ buff, t0\<lparr> incomplete_csi := [] \<rparr>)
             else if incomplete_utf8 t0 \<noteq> [] then (incomplete_utf8 t0 @ buff, t0\<lparr> incomplete_utf8 := [] \<rparr>)
             else (buff, t0))
      in if buff1 \<noteq> [] \<and> last buff1 = ESC
         then (butlast buff1 @ [CHR 0x00], t1\<lparr> incomplete_esc := True \<rparr>)
         else (buff1 @ [CHR 0x00], t1))"

definition update :: "yed_env \<Rightarrow> terminal \<Rightarrow> terminal option" where
  "update y t =
     (if delay_update t then Some (t\<lparr> delay_update := False \<rparr>)
      else case take_chunk t of
             (buff, t1) \<Rightarrow> map_option Term_write_to_buffer (update_loop y buff 0 locals_init t1))"

text \<open>The reader thread appends what it reads to \<open>data_buff\<close>.\<close>

definition feed :: "string \<Rightarrow> terminal \<Rightarrow> terminal" where
  "feed bytes t = t\<lparr> data_buff := data_buff t @ bytes \<rparr>"

text \<open>One read of the bytes followed by one \<open>update\<close>.\<close>

definition feed_update :: "yed_env \<Rightarrow> string \<Rightarrow> terminal \<Rightarrow> terminal option" where
  "feed_update y bytes t = update y (feed bytes t)"

text \<open>The glyph stored at a position of the page.\<close>

definition glyph_at :: "screen \<Rightarrow> int \<Rightarrow> int \<Rightarrow> glyph option" where
  "glyph_at s row col = do {
     l \<leftarrow> page_row s row;
     c \<leftarrow> vec_at (cells l) (col - 1);
     Some (glyph c)
   }"

text \<open>A terminal whose active screen is sized, with a size below \<open>INT_MAX\<close>.\<close>

definition term_ok :: "terminal \<Rightarrow> bool" where
  "term_ok t = (screen_ok (Term_screen t) \<and> Term_height t < INT_MAX \<and> Term_width t < INT_MAX)"

text \<open>The view of a terminal that a user has: the page, and the cursor.\<close>

definition screen_view :: "terminal \<Rightarrow> glyph list list \<times> int \<times> int" where
  "screen_view t = (page_text t, Term_row t, Term_col t)"

text \<open>
  Modelled from the spec: glyph boundaries are decided by UTF-8 length. An environment
  in which \<open>yed_get_glyph_len\<close> is the length that the lead byte of a UTF-8 sequence
  announces.
\<close>

definition utf8_len :: "string \<Rightarrow> nat" where
  "utf8_len bs =
     (case bs of
        [] \<Rightarrow> 1
      | c # _ \<Rightarrow>
          let b = (of_char c :: nat) in
          if 0xF0 \<le> b \<and> b < 0xF8 then 4
          else if 0xE0 \<le> b \<and> b < 0xF0 then 3
          else if 0xC0 \<le> b \<and> b < 0xE0 then 2
          else 1)"

definition utf8_env :: yed_env where
  "utf8_env = ascii_env\<lparr> glyph_len := utf8_len \<rparr>"

text \<open>Every line is at least \<open>w\<close> cells long.\<close>

definition lines_wide :: "int \<Rightarrow> line list \<Rightarrow> bool" where
  "lines_wide w ls = list_all (\<lambda>l. w \<le> int (length (cells l))) ls"

text \<open>The scalar fields and line count that make a screen sized, without the line widths.\<close>

definition frame_ok :: "screen \<Rightarrow> bool" where
  "frame_ok s =
     (1 \<le> width s \<and> 1 \<le> height s \<and> 0 \<le> scrollback s \<and> line_count_ok s
      \<and> 1 \<le> cursor_row s \<and> cursor_row s \<le> height s
      \<and> 1 \<le> cursor_col s \<and> cursor_col s \<le> width s
      \<and> 0 \<le> scroll_t s \<and> scroll_t s \<le> height s
      \<and> 0 \<le> scroll_b s \<and> scroll_b s \<le> height s)"

text \<open>Two screens that differ in their lines only.\<close>

definition same_fields :: "screen \<Rightarrow> screen \<Rightarrow> bool" where
  "same_fields s s' = (height s' = height s \<and> scrollback s' = scrollback s \<and> width s' = width s
      \<and> scroll_t s' = scroll_t s \<and> scroll_b s' = scroll_b s
      \<and> cursor_row s' = cursor_row s \<and> cursor_col s' = cursor_col s)"







text \<open>The arguments of a mutation address the page.\<close>

fun mutation_in_page :: "screen \<Rightarrow> mutation \<Rightarrow> bool" where
  "mutation_in_page s (InsertLine row) = (1 \<le> row \<and> row \<le> height s)"
| "mutation_in_page s (DeleteLine row) = (1 \<le> row \<and> row \<le> height s)"
| "mutation_in_page s (SetCell row col g) = (1 \<le> row \<and> 1 \<le> col)"
| "mutation_in_page s (InsertCell row col g) = (1 \<le> row \<and> row \<le> height s \<and> 1 \<le> col \<and> col \<le> width s)"
| "mutation_in_page s (DeleteCell row col) = (1 \<le> row \<and> row \<le> height s \<and> 1 \<le> col \<and> col \<le> width s)"
| "mutation_in_page s (ClearRow row) = (1 \<le> row \<and> row \<le> height s)"
| "mutation_in_page s m = True"

section \<open>Verification\<close>

subsection \<open>Line count and geometry\<close>

lemma for_loop_invariant:
  assumes "for_loop xs body s = Some s'" and "P s"
    and "\<And>i t t'. P t \<Longrightarrow> body i t = Some t' \<Longrightarrow> P t'"
  shows "P s'"
  using assms(1,2)
proof (induction xs arbitrary: s)
  case Nil
  then show ?case by simp
next
  case (Cons i rest)
  then show ?case by (auto split: option.splits intro: assms(3))
qed

lemma vec_set_length: "vec_set xs i v = Some ys \<Longrightarrow> length ys = length xs"
  by (auto simp: vec_set_def split: if_splits)

lemma vec_erase_length: "vec_erase xs i = Some ys \<Longrightarrow> Suc (length ys) = length xs"
  by (auto simp: vec_erase_def split: if_splits)

lemma vec_insert_length: "vec_insert xs i v = Some ys \<Longrightarrow> length ys = Suc (length xs)"
  by (auto simp: vec_insert_def split: if_splits)

lemma same_shape_refl: "same_shape s s"
  by (simp add: same_shape_def)

lemma same_shape_trans: "same_shape s t \<Longrightarrow> same_shape t u \<Longrightarrow> same_shape s u"
  by (simp add: same_shape_def)

lemma for_loop_shape:
  assumes "for_loop xs body s = Some s'"
    and "\<And>i t t'. body i t = Some t' \<Longrightarrow> same_shape t t'"
  shows "same_shape s s'"
  using assms(1)
proof (induction xs arbitrary: s)
  case Nil
  then show ?case by (simp add: same_shape_refl)
next
  case (Cons i rest)
  then show ?case
    by (auto split: option.splits intro: same_shape_trans dest: assms(2))
qed

lemma mark_dirty_row_shape: "mark_dirty_row i s = Some s' \<Longrightarrow> same_shape s s'"
  by (auto simp: mark_dirty_row_def same_shape_def Option.bind_eq_Some_conv dest: vec_set_length)

lemma mark_region_dirty_shape: "mark_region_dirty s = Some s' \<Longrightarrow> same_shape s s'"
  unfolding mark_region_dirty_def by (erule for_loop_shape) (rule mark_dirty_row_shape)

lemma Screen_set_shape: "Screen_set y a row col g s = Some s' \<Longrightarrow> same_shape s s'"
  by (auto simp: Screen_set_def same_shape_def Option.bind_eq_Some_conv
      split: if_splits dest: vec_set_length)

lemma Screen_insert_shape: "Screen_insert a row col g s = Some s' \<Longrightarrow> same_shape s s'"
  by (auto simp: Screen_insert_def same_shape_def Option.bind_eq_Some_conv dest: vec_set_length)

lemma Screen_del_cell_shape: "Screen_del_cell a row col s = Some s' \<Longrightarrow> same_shape s s'"
  by (auto simp: Screen_del_cell_def same_shape_def Option.bind_eq_Some_conv dest: vec_set_length)

lemma Screen_clear_row_shape: "Screen_clear_row a row s = Some s' \<Longrightarrow> same_shape s s'"
  by (auto simp: Screen_clear_row_def Screen_clear_row_abs_def same_shape_def
      Option.bind_eq_Some_conv dest: vec_set_length)

lemma Screen_clear_page_shape: "Screen_clear_page a s = Some s' \<Longrightarrow> same_shape s s'"
  unfolding Screen_clear_page_def by (erule for_loop_shape) (rule Screen_clear_row_shape)

lemma Screen__delete_line_length:
  "Screen__delete_line i s = Some s' \<Longrightarrow> Suc (length (lines s')) = length (lines s)
     \<and> height s' = height s \<and> scrollback s' = scrollback s \<and> width s' = width s
     \<and> scroll_t s' = scroll_t s \<and> scroll_b s' = scroll_b s
     \<and> cursor_row s' = cursor_row s \<and> cursor_col s' = cursor_col s"
  by (auto simp: Screen__delete_line_def Option.bind_eq_Some_conv dest: vec_erase_length)

lemma insert_or_push_length:
  "insert_or_push r l s = Some s' \<Longrightarrow> length (lines s') = Suc (length (lines s))
     \<and> height s' = height s \<and> scrollback s' = scrollback s \<and> width s' = width s
     \<and> scroll_t s' = scroll_t s \<and> scroll_b s' = scroll_b s
     \<and> cursor_row s' = cursor_row s \<and> cursor_col s' = cursor_col s"
  by (auto simp: insert_or_push_def Option.bind_eq_Some_conv split: if_splits
      dest: vec_insert_length)

lemma Screen_scroll_up_shape: "Screen_scroll_up a s = Some s' \<Longrightarrow> same_shape s s'"
  apply (clarsimp simp: Screen_scroll_up_def Option.bind_eq_Some_conv Let_def)
  apply (drule Screen__delete_line_length insert_or_push_length mark_region_dirty_shape)+
  apply (simp add: same_shape_def)
  done

lemma Screen_scroll_down_shape: "Screen_scroll_down a s = Some s' \<Longrightarrow> same_shape s s'"
  apply (clarsimp simp: Screen_scroll_down_def Option.bind_eq_Some_conv Let_def)
  apply (drule Screen__delete_line_length vec_insert_length mark_region_dirty_shape)+
  apply (simp add: same_shape_def)
  done

lemma Screen_insert_line_shape: "Screen_insert_line a row s = Some s' \<Longrightarrow> same_shape s s'"
  apply (clarsimp simp: Screen_insert_line_def Option.bind_eq_Some_conv Let_def)
  apply (drule Screen__delete_line_length insert_or_push_length mark_region_dirty_shape)+
  apply (simp add: same_shape_def)
  done

lemma Screen_delete_line_shape:
  assumes "Screen_delete_line a row s = Some s'"
  shows "same_shape s s'"
proof -
  from assms obtain s1 nl ls where
    d: "Screen__delete_line (scrollback s + row - 1) s = Some s1" and
    i: "vec_insert (lines s1) (scrollback s + scbottom s - 1) nl = Some ls" and
    m: "(if scroll_t s \<noteq> 0 \<or> scroll_b s \<noteq> 0 then mark_region_dirty (s1\<lparr>lines := ls\<rparr>)
         else Some (s1\<lparr>lines := ls\<rparr>)) = Some s'"
    by (auto simp: Screen_delete_line_def Option.bind_eq_Some_conv Let_def)
  from m have "same_shape (s1\<lparr>lines := ls\<rparr>) s'"
    by (auto split: if_splits intro: mark_region_dirty_shape same_shape_refl)
  with Screen__delete_line_length[OF d] vec_insert_length[OF i] show ?thesis
    by (simp add: same_shape_def)
qed

lemma mutate_shape: "mutate y am s = Some s' \<Longrightarrow> same_shape s s'"
proof (cases am)
  case (Pair a m)
  assume r: "mutate y am s = Some s'"
  show ?thesis
  proof (cases m)
    case ScrollUp
    with r Pair show ?thesis by (simp add: Screen_scroll_up_shape)
  next
    case ScrollDown
    with r Pair show ?thesis by (simp add: Screen_scroll_down_shape)
  next
    case (InsertLine row)
    with r Pair show ?thesis by (simp add: Screen_insert_line_shape)
  next
    case (DeleteLine row)
    with r Pair show ?thesis by (simp add: Screen_delete_line_shape)
  next
    case (SetCell row col g)
    with r Pair show ?thesis by (simp add: Screen_set_shape)
  next
    case (InsertCell row col g)
    with r Pair show ?thesis by (simp add: Screen_insert_shape)
  next
    case (DeleteCell row col)
    with r Pair show ?thesis by (simp add: Screen_del_cell_shape)
  next
    case (ClearRow row)
    with r Pair show ?thesis by (simp add: Screen_clear_row_shape)
  next
    case ClearPage
    with r Pair show ?thesis by (simp add: Screen_clear_page_shape)
  qed
qed


lemma for_loop_mark_shape:
  "for_loop xs (\<lambda>row. mark_dirty_row (f row)) s = Some s' \<Longrightarrow> same_shape s s'"
  by (erule for_loop_shape) (rule mark_dirty_row_shape)

lemma shrink_lines_length:
  "shrink_lines n ls = Some ls' \<Longrightarrow> n \<le> length ls \<Longrightarrow> length ls' = n"
proof (induction n ls rule: shrink_lines.induct)
  case (1 n ls)
  show ?case
  proof (cases "length ls > n")
    case True
    from "1.prems"(1) True obtain c cs where cs: "cells (last ls) = c # cs"
      by (subst (asm) shrink_lines.simps) (auto split: list.splits)
    show ?thesis
    proof (cases "glyph_c (glyph c) = CHR 0x00")
      case True
      with "1.prems" \<open>length ls > n\<close> cs have "shrink_lines n (butlast ls) = Some ls'"
        by (subst (asm) shrink_lines.simps) simp
      with "1.IH"(1)[OF \<open>length ls > n\<close> cs True] \<open>length ls > n\<close> show ?thesis by simp
    next
      case False
      with "1.prems" \<open>length ls > n\<close> cs have "shrink_lines n (tl ls) = Some ls'"
        by (subst (asm) shrink_lines.simps) simp
      with "1.IH"(2)[OF \<open>length ls > n\<close> cs False] \<open>length ls > n\<close> show ?thesis by simp
    qed
  next
    case False
    with "1.prems" show ?thesis by (subst (asm) shrink_lines.simps) simp
  qed
qed

lemma adjust_line_count_length:
  "adjust_line_count a mw n ls = Some ls' \<Longrightarrow> int (length ls') = n"
  by (auto simp: adjust_line_count_def Option.bind_eq_Some_conv split: if_splits
      dest: shrink_lines_length)

lemma pad_lines_length: "pad_lines a mw ls = Some ls' \<Longrightarrow> length ls' = length ls"
  by (induction ls arbitrary: ls') (auto simp: Option.bind_eq_Some_conv)

lemma Screen_set_dimensions_count:
  assumes "Screen_set_dimensions a w h s0 = Some s"
  shows "line_count_ok s \<and> height s = h \<and> width s = w \<and> scrollback s = scrollback s0"
proof -
  define mw where "mw = max_line_width w (lines s0)"
  from assms obtain ls ls' where
    ls: "adjust_line_count a mw (h + scrollback s0) (lines s0) = Some ls" and
    pad: "(if mw > width s0 then pad_lines a mw ls else Some ls) = Some ls'" and
    loop: "for_loop [max 1 (scrollback s0 - h) .. scrollback s0 + h - 1]
             (\<lambda>row. mark_dirty_row (row - 1))
             (s0\<lparr> lines := ls', width := w, height := h,
                scroll_t := LIMIT (scroll_t s0) 0 h, scroll_b := LIMIT (scroll_b s0) 0 h,
                cursor_row := LIMIT (cursor_row s0) 1 h,
                cursor_col := LIMIT (cursor_col s0) 1 w \<rparr>) = Some s"
    unfolding Screen_set_dimensions_def mw_def Let_def
    by (auto simp: Option.bind_eq_Some_conv)
  from pad have "length ls' = length ls"
    by (auto split: if_splits dest: pad_lines_length)
  with adjust_line_count_length[OF ls] for_loop_mark_shape[OF loop] show ?thesis
    by (simp add: same_shape_def line_count_ok_def)
qed

lemma same_shape_line_count: "same_shape s s' \<Longrightarrow> line_count_ok s \<Longrightarrow> line_count_ok s'"
  by (simp add: same_shape_def line_count_ok_def)

lemma mutations_shape: "for_loop ms (mutate y) s = Some s' \<Longrightarrow> same_shape s s'"
  by (erule for_loop_shape) (rule mutate_shape)

lemma line_count_page_rows:
  assumes "line_count_ok s" "0 \<le> scrollback s" "1 \<le> row" "row \<le> height s"
  shows "page_row s row = Some (lines s ! nat (scrollback s + row - 1))"
  using assms by (simp add: page_row_def vec_at_def line_count_ok_def)

lemma line_count_history:
  assumes "line_count_ok s" "0 \<le> scrollback s" "0 \<le> height s"
  shows "int (length (history s)) = scrollback s"
  using assms by (simp add: history_def line_count_ok_def)

text \<open>
  C5. Once \<open>set_dimensions\<close> has run, the number of stored lines is
  \<open>scrollback + height\<close>, and every run of screen mutations (scroll up and down, insert
  and delete line, cell set, insert and delete, row and page clear) that follows keeps
  it so: the first \<open>scrollback\<close> lines are the history, and each row
  \<open>1 .. height\<close> of the page is stored behind them.
\<close>

theorem line_count_invariant:
  assumes "Screen_set_dimensions a w h s0 = Some s"
    and "for_loop ms (mutate y) s = Some s'"
    and "0 \<le> scrollback s0" and "0 \<le> h"
  shows "line_count_ok s \<and> line_count_ok s'
     \<and> height s' = h \<and> scrollback s' = scrollback s0
     \<and> int (length (history s')) = scrollback s0
     \<and> (\<forall>row. 1 \<le> row \<and> row \<le> h \<longrightarrow>
           page_row s' row = Some (lines s' ! nat (scrollback s0 + row - 1)))"
proof -
  from Screen_set_dimensions_count[OF assms(1)]
  have s: "line_count_ok s" "height s = h" "scrollback s = scrollback s0"
    by simp_all
  from mutations_shape[OF assms(2)] have sh: "same_shape s s'" .
  then have s': "line_count_ok s'" "height s' = h" "scrollback s' = scrollback s0"
    using s by (simp_all add: same_shape_def line_count_ok_def)
  from s' assms(3,4) have "int (length (history s')) = scrollback s0"
    by (simp add: line_count_history)
  moreover from s' assms(3) have
    "\<forall>row. 1 \<le> row \<and> row \<le> h \<longrightarrow>
        page_row s' row = Some (lines s' ! nat (scrollback s0 + row - 1))"
    using line_count_page_rows[of s'] by auto
  ultimately show ?thesis using s s' by simp
qed

lemma demo_set_dimensions: "Screen_set_dimensions ZERO_ATTR 2 2 (new_Screen 1) \<noteq> None"
  by code_simp

lemma demo_mutations:
  "(case Screen_set_dimensions ZERO_ATTR 2 2 (new_Screen 1) of
      Some s \<Rightarrow> for_loop demo_ops (mutate ascii_env) s) \<noteq> None"
  by code_simp

theorem line_count_invariant_witness:
  "\<exists>s s'. Screen_set_dimensions ZERO_ATTR 2 2 (new_Screen 1) = Some s
     \<and> for_loop demo_ops (mutate ascii_env) s = Some s'
     \<and> line_count_ok s \<and> line_count_ok s' \<and> height s' = 2 \<and> scrollback s' = 1
     \<and> int (length (history s')) = 1
     \<and> page_row s' 1 = Some (lines s' ! 1) \<and> page_row s' 2 = Some (lines s' ! 2)"
proof -
  from demo_set_dimensions obtain s where
    s: "Screen_set_dimensions ZERO_ATTR 2 2 (new_Screen 1) = Some s" by auto
  with demo_mutations obtain s' where
    s': "for_loop demo_ops (mutate ascii_env) s = Some s'" by auto
  have sb: "0 \<le> scrollback (new_Screen 1)" "scrollback (new_Screen 1) = 1"
    by (simp_all add: new_Screen_def)
  from line_count_invariant[OF s s' sb(1)] sb(2)
  have r: "line_count_ok s \<and> line_count_ok s' \<and> height s' = 2 \<and> scrollback s' = 1
     \<and> int (length (history s')) = 1
     \<and> (\<forall>row. 1 \<le> row \<and> row \<le> 2 \<longrightarrow> page_row s' row = Some (lines s' ! nat (1 + row - 1)))"
    by simp
  then have "page_row s' 1 = Some (lines s' ! 1)" "page_row s' 2 = Some (lines s' ! 2)"
    by (auto dest: spec[of _ 1] spec[of _ 2])
  with r s s' show ?thesis by blast
qed

subsection \<open>Writing a cell\<close>

lemma demo_screen_ok: "screen_ok demo_screen"
  by code_simp

text \<open>
  C6, as stated, fails: the guard of \<open>Screen::set\<close> tests the upper bounds only. Row 0
  lies outside the page, yet the write lands in the last history line; column 0 indexes
  the cell before the first one of the row.
\<close>

theorem set_outside_page_counterexample:
  "screen_ok demo_screen
   \<and> \<not> (1 \<le> (0::int) \<and> 0 \<le> height demo_screen)
   \<and> Screen_set ascii_env ZERO_ATTR 0 1 ''x'' demo_screen \<noteq> Some demo_screen
   \<and> map_option history (Screen_set ascii_env ZERO_ATTR 0 1 ''x'' demo_screen)
       = Some [\<lparr> cells = [\<lparr> glyph = ''x'', attrs = ZERO_ATTR \<rparr>, blank_cell ZERO_ATTR],
                 dirty = True \<rparr>]
   \<and> map Some (history demo_screen) = [Line 2 ZERO_ATTR]
   \<and> Screen_set ascii_env ZERO_ATTR 1 0 ''x'' demo_screen = None"
  by code_simp

text \<open>
  C6, amended: for every position below the page or right of it (\<open>row > height\<close> or
  \<open>col > width\<close>) and every glyph, \<open>set\<close> returns at once: the screen, page and
  history, is unchanged and no line or cell is indexed.
\<close>

theorem set_beyond_page_noop:
  "row > height s \<or> col > width s \<Longrightarrow> Screen_set y a row col g s = Some s"
  by (simp add: Screen_set_def)

theorem set_beyond_page_noop_witness:
  "(3 > height demo_screen \<or> 1 > width demo_screen)
   \<and> Screen_set ascii_env ZERO_ATTR 3 1 ''x'' demo_screen = Some demo_screen"
proof -
  have h: "3 > height demo_screen \<or> 1 > width demo_screen"
    by (simp add: demo_screen_def)
  from set_beyond_page_noop[OF h] h show ?thesis by blast
qed

subsection \<open>CSI parameters\<close>

text \<open>One unfolding of the parameter loop, with its parts named.\<close>

lemma csi_params_Cons:
  fixes cs :: string
  defines "sarg \<equiv> takeWhile is_digit cs"
    and "cs1 \<equiv> dropWhile is_digit cs"
  defines "dl \<equiv> takeWhile IS_DELIM cs1"
    and "cs2 \<equiv> dropWhile IS_DELIM cs1"
  assumes "cs = c # cs'"
  shows "csi_params cs q =
          (if IS_FINAL c then Some (q\<lparr> command := c, complete := True \<rparr>)
           else if c = ESC then Some (q\<lparr> len := len q - 1 \<rparr>)
           else if \<not> is_digit c \<and> \<not> IS_DELIM c then Some q
           else if cs1 = [] then Some (q\<lparr> len := len q + length sarg - 1 \<rparr>)
           else if sarg = [] then None
           else if cs2 = []
             then Some (q\<lparr> args := args q @ [sscanf_ld sarg],
                           len := len q + length sarg + length dl - 1 \<rparr>)
             else csi_params cs2 (q\<lparr> args := args q @ [sscanf_ld sarg],
                                     len := len q + length sarg + length dl \<rparr>))"
  unfolding sarg_def cs1_def dl_def cs2_def assms(5)
  by (subst csi_params.simps) (simp add: Let_def del: takeWhile.simps dropWhile.simps)

lemma csi_params_args_rel:
  "args r' = xs @ args r \<Longrightarrow>
   map_option args (csi_params cs r') = map_option ((@) xs) (map_option args (csi_params cs r))"
proof (induction cs r arbitrary: r' rule: csi_params.induct)
  case (1 cs r)
  show ?case
  proof (cases cs)
    case Nil
    with "1.prems" show ?thesis by (simp add: csi_params.simps)
  next
    case (Cons c cs')
    define sarg where "sarg = takeWhile is_digit cs"
    define cs1 where "cs1 = dropWhile is_digit cs"
    define dl where "dl = takeWhile IS_DELIM cs1"
    define cs2 where "cs2 = dropWhile IS_DELIM cs1"
    define r1 where "r1 = r\<lparr> len := len r + length sarg, args := args r @ [sscanf_ld sarg] \<rparr>"
    note unf = csi_params_Cons[OF Cons, folded sarg_def cs1_def, folded dl_def cs2_def]
    show ?thesis
    proof (cases "\<not> IS_FINAL c \<and> c \<noteq> ESC \<and> (is_digit c \<or> IS_DELIM c) \<and> cs1 \<noteq> [] \<and> sarg \<noteq> [] \<and> cs2 \<noteq> []")
      case True
      have "args (r'\<lparr> args := args r' @ [sscanf_ld sarg], len := len r' + length sarg + length dl \<rparr>)
          = xs @ args (r1\<lparr>len := len r1 + length dl\<rparr>)"
        using "1.prems" by (simp add: r1_def)
      with True have ih: "map_option args (csi_params cs2 (r'\<lparr> args := args r' @ [sscanf_ld sarg], len := len r' + length sarg + length dl \<rparr>))
          = map_option ((@) xs) (map_option args (csi_params cs2 (r1\<lparr>len := len r1 + length dl\<rparr>)))"
        using "1.IH"[OF Cons _ _ _ sarg_def cs1_def _ _ r1_def dl_def cs2_def] by blast
      have "r1\<lparr>len := len r1 + length dl\<rparr> = r\<lparr> args := args r @ [sscanf_ld sarg], len := len r + length sarg + length dl \<rparr>"
        by (simp add: r1_def)
      with True ih "1.prems" show ?thesis
        by (auto simp add: unf)
    next
      case False
      with "1.prems" show ?thesis
        by (auto simp add: unf)
    qed
  qed
qed


lemma delim_not_digit: "IS_DELIM c \<Longrightarrow> \<not> is_digit c"
  by (auto simp: IS_DELIM_def is_digit_def)

lemma digit_not_final: "is_digit c \<Longrightarrow> \<not> IS_FINAL c \<and> c \<noteq> ESC \<and> \<not> IS_DELIM c"
  by (auto simp: IS_DELIM_def is_digit_def IS_FINAL_def ESC_def)

lemma csi_params_total: "cs = [] \<or> \<not> IS_DELIM (hd cs) \<Longrightarrow> csi_params cs r \<noteq> None"
proof (induction cs r rule: csi_params.induct)
  case (1 cs r)
  show ?case
  proof (cases cs)
    case Nil
    then show ?thesis by (simp add: csi_params.simps)
  next
    case (Cons c cs')
    define sarg where "sarg = takeWhile is_digit cs"
    define cs1 where "cs1 = dropWhile is_digit cs"
    define dl where "dl = takeWhile IS_DELIM cs1"
    define cs2 where "cs2 = dropWhile IS_DELIM cs1"
    define r1 where "r1 = r\<lparr> len := len r + length sarg, args := args r @ [sscanf_ld sarg] \<rparr>"
    note unf = csi_params_Cons[OF Cons, folded sarg_def cs1_def, folded dl_def cs2_def]
    from Cons "1.prems" have nd: "\<not> IS_DELIM c" by simp
    have sarg: "is_digit c \<Longrightarrow> sarg \<noteq> []"
      by (simp add: sarg_def Cons)
    have hd2: "cs2 \<noteq> [] \<Longrightarrow> \<not> IS_DELIM (hd cs2)"
      unfolding cs2_def by (rule hd_dropWhile)
    show ?thesis
    proof (cases "\<not> IS_FINAL c \<and> c \<noteq> ESC \<and> is_digit c \<and> cs1 \<noteq> [] \<and> cs2 \<noteq> []")
      case True
      with sarg hd2 have "csi_params cs2 (r1\<lparr>len := len r1 + length dl\<rparr>) \<noteq> None"
        using "1.IH"[OF Cons _ _ _ sarg_def cs1_def _ _ r1_def dl_def cs2_def] by blast
      moreover have "r1\<lparr>len := len r1 + length dl\<rparr> = r\<lparr> args := args r @ [sscanf_ld sarg], len := len r + length sarg + length dl \<rparr>"
        by (simp add: r1_def)
      ultimately show ?thesis using True sarg by (simp add: unf)
    next
      case False
      with nd sarg show ?thesis
        by (auto simp add: unf)
    qed
  qed
qed

lemma csi_markers_prefix:
  assumes "\<forall>c\<in>set pre. IS_DELIM c" "rest \<noteq> []" "\<not> IS_DELIM (hd rest)"
  shows "\<exists>r'. csi_markers (pre @ rest) r = csi_params rest r'
     \<and> args r' = args r @ replicate (count_list pre CHR '';'') 0"
  using assms(1)
proof (induction pre arbitrary: r)
  case Nil
  from assms(2,3) show ?case by (cases rest) auto
next
  case (Cons c pre)
  then have c: "IS_DELIM c" and pre: "\<forall>c\<in>set pre. IS_DELIM c" by auto
  define r1 where "r1 = (csi_marker c r)\<lparr> len := len (csi_marker c r) + 1 \<rparr>"
  from Cons.IH[OF pre, of r1] obtain r' where
    r': "csi_markers (pre @ rest) r1 = csi_params rest r'"
        "args r' = args r1 @ replicate (count_list pre CHR '';'') 0" by blast
  have "args r1 = args r @ (if c = CHR '';'' then [0] else [])"
    by (simp add: r1_def csi_marker_def)
  with r' c assms(2) show ?case
    by (auto simp: r1_def Let_def replicate_append_same)
qed

lemma CSI_total: "CSI str \<noteq> None"
proof (cases str)
  case Nil
  then show ?thesis by (simp add: CSI_def)
next
  case (Cons c cs)
  define pre where "pre = takeWhile IS_DELIM str"
  define rest where "rest = dropWhile IS_DELIM str"
  have str: "str = pre @ rest" by (simp add: pre_def rest_def)
  have pre: "\<forall>c\<in>set pre. IS_DELIM c"
    unfolding pre_def by (auto dest: set_takeWhileD)
  show ?thesis
  proof (cases "rest = []")
    case True
    have "\<And>r. \<forall>c\<in>set p. IS_DELIM c \<Longrightarrow> csi_markers p r \<noteq> None" for p
      by (induction p) (auto simp: Let_def)
    with pre True str Cons show ?thesis by (simp add: CSI_def)
  next
    case False
    then have "\<not> IS_DELIM (hd rest)" unfolding rest_def by (rule hd_dropWhile)
    from csi_markers_prefix[OF pre False this] csi_params_total[of rest] this Cons str
    show ?thesis by (metis CSI_def list.distinct(1))
  qed
qed

lemma CSI_args_leading:
  assumes "\<forall>c\<in>set pre. IS_DELIM c" "rest \<noteq> []" "\<not> IS_DELIM (hd rest)"
  shows "CSI_args (pre @ rest) = replicate (count_list pre CHR '';'') 0 @ CSI_args rest"
proof -
  define r0 where "r0 = csi_init\<lparr> len := 1 \<rparr>"
  from csi_markers_prefix[OF assms, of r0] obtain r' where
    r': "csi_markers (pre @ rest) r0 = csi_params rest r'"
        "args r' = replicate (count_list pre CHR '';'') 0 @ args r0"
    by (auto simp: r0_def csi_init_def)
  from assms(2,3) have rest: "CSI rest = csi_params rest r0"
    by (cases rest) (auto simp: CSI_def r0_def)
  from assms(2) r'(1) have pre: "CSI (pre @ rest) = csi_params rest r'"
    by (simp add: CSI_def r0_def)
  from csi_params_args_rel[OF r'(2), of rest] CSI_total[of rest] CSI_total[of "pre @ rest"]
  show ?thesis
    unfolding CSI_args_def rest pre by (auto split: option.splits)
qed

lemma CSI_args_after_param:
  assumes "sarg \<noteq> []" "\<forall>c\<in>set sarg. is_digit c" "dl \<noteq> []" "\<forall>c\<in>set dl. IS_DELIM c"
    "rest \<noteq> []" "\<not> IS_DELIM (hd rest)"
  shows "CSI_args (sarg @ dl @ rest) = sscanf_ld sarg # CSI_args rest"
proof -
  define r0 where "r0 = csi_init\<lparr> len := 1 \<rparr>"
  define cs where "cs = sarg @ dl @ rest"
  from assms(1) obtain c sarg' where sarg: "sarg = c # sarg'" by (cases sarg) auto
  with assms(2) have c: "is_digit c" by simp
  have cs: "cs = c # (sarg' @ dl @ rest)" by (simp add: cs_def sarg)
  from assms(3,4) have dl: "\<not> is_digit (hd dl)"
    by (cases dl) (auto dest: delim_not_digit)
  from assms(2,3) dl have tw: "takeWhile is_digit cs = sarg" "dropWhile is_digit cs = dl @ rest"
    unfolding cs_def by (cases dl; simp add: takeWhile_append2 dropWhile_append2)+
  from assms(4,5,6) have tw2: "takeWhile IS_DELIM (dl @ rest) = dl" "dropWhile IS_DELIM (dl @ rest) = rest"
    by (cases rest; simp add: takeWhile_append2 dropWhile_append2)+
  from c digit_not_final[OF c] assms(1,3,5)
  have step: "csi_params cs r0 = csi_params rest
      (r0\<lparr> args := args r0 @ [sscanf_ld sarg], len := len r0 + length sarg + length dl \<rparr>)"
    by (subst csi_params_Cons[OF cs]) (simp add: tw tw2)
  from c digit_not_final[OF c] have all: "CSI cs = csi_params cs r0"
    by (simp add: CSI_def cs r0_def)
  from assms(5,6) have rest: "CSI rest = csi_params rest r0"
    by (cases rest) (auto simp: CSI_def r0_def)
  have "args (r0\<lparr> args := args r0 @ [sscanf_ld sarg], len := len r0 + length sarg + length dl \<rparr>)
      = [sscanf_ld sarg] @ args r0"
    by (simp add: r0_def csi_init_def)
  from csi_params_args_rel[OF this, of rest] CSI_total[of rest] CSI_total[of cs]
  show ?thesis
    unfolding CSI_args_def cs_def[symmetric] rest all step by (auto split: option.splits)
qed

text \<open>
  C7, as stated, fails: only the first loop of the constructor pushes a zero for a
  \<open>;\<close>. After a parameter the delimiters are skipped, so the empty parameter of
  \<open>1;;3\<close> leaves no argument behind.
\<close>

theorem csi_empty_parameter_counterexample:
  "map_option args (CSI ''1;;3H'') = Some [1, 3]
   \<and> map_option args (CSI ''1;;3H'') \<noteq> Some [1, 0, 3]"
  by code_simp

text \<open>
  C7, amended: for every CSI byte window, each \<open>;\<close> in the run of markers and
  delimiters that opens the window pushes a zero-valued argument, and the delimiters
  that follow a numeric parameter push nothing; so \<open>;5\<close> parses to the arguments
  \<open>[0, 5]\<close> and \<open>1;;3\<close> to \<open>[1, 3]\<close>.
\<close>

theorem csi_zero_args_leading_only:
  "((\<forall>c\<in>set pre. IS_DELIM c) \<and> rest \<noteq> [] \<and> \<not> IS_DELIM (hd rest) \<longrightarrow>
      CSI_args (pre @ rest) = replicate (count_list pre CHR '';'') 0 @ CSI_args rest)
   \<and> (sarg \<noteq> [] \<and> (\<forall>c\<in>set sarg. is_digit c) \<and> dl \<noteq> [] \<and> (\<forall>c\<in>set dl. IS_DELIM c)
        \<and> rest' \<noteq> [] \<and> \<not> IS_DELIM (hd rest') \<longrightarrow>
      CSI_args (sarg @ dl @ rest') = sscanf_ld sarg # CSI_args rest')
   \<and> CSI_args '';5H'' = [0, 5] \<and> CSI_args ''1;;3H'' = [1, 3]"
proof -
  have "CSI_args '';5H'' = [0, 5]" "CSI_args ''1;;3H'' = [1, 3]"
    by code_simp+
  then show ?thesis
    using CSI_args_leading[of pre rest] CSI_args_after_param[of sarg dl rest'] by blast
qed

theorem csi_zero_args_leading_only_witness:
  "list_all IS_DELIM '';'' \<and> ''5H'' \<noteq> [] \<and> \<not> IS_DELIM (hd ''5H'')
   \<and> CSI_args ('';'' @ ''5H'') = [0, 5]
   \<and> ''1'' \<noteq> [] \<and> list_all is_digit ''1'' \<and> '';;'' \<noteq> [] \<and> list_all IS_DELIM '';;''
   \<and> ''3H'' \<noteq> [] \<and> \<not> IS_DELIM (hd ''3H'')
   \<and> CSI_args (''1'' @ '';;'' @ ''3H'') = [1, 3]"
proof -
  have h1: "list_all IS_DELIM '';'' \<and> ''5H'' \<noteq> [] \<and> \<not> IS_DELIM (hd ''5H'')"
    by (simp add: IS_DELIM_def)
  have h2: "''1'' \<noteq> [] \<and> list_all is_digit ''1'' \<and> '';;'' \<noteq> [] \<and> list_all IS_DELIM '';;''
      \<and> ''3H'' \<noteq> [] \<and> \<not> IS_DELIM (hd ''3H'')"
    by (simp add: IS_DELIM_def is_digit_def)
  have v: "CSI_args ''5H'' = [5]" "CSI_args ''3H'' = [3]" "sscanf_ld ''1'' = 1"
    by code_simp+
  from csi_zero_args_leading_only[of "'';''" "''5H''" "''1''" "'';;''" "''3H''"] h1 h2 v
  have "CSI_args ('';'' @ ''5H'') = [0, 5]" "CSI_args (''1'' @ '';;'' @ ''3H'') = [1, 3]"
    by (simp_all add: list_all_iff)
  with h1 h2 show ?thesis by blast
qed

subsection \<open>Key encoder\<close>

text \<open>
  C8, as stated, fails for the Delete key and for F1 to F4: Delete is missing from the
  first \<open>switch\<close>, so the encoder writes the single byte \<open>P\<close> for it, and F1 to F4
  are the SS3 sequences \<open>ESC O P\<close> to \<open>ESC O S\<close>, not CSI sequences.
\<close>

theorem key_delete_counterexample:
  "key_bytes True DEL_KEY = ''P'' \<and> key_bytes False DEL_KEY = ''P''
   \<and> \<not> is_csi_sequence (key_bytes False DEL_KEY)
   \<and> key_bytes False FN1 = [ESC, CHR ''O'', CHR ''P'']
   \<and> \<not> is_csi_sequence (key_bytes False FN1)"
  by (simp add: key_bytes_def is_csi_sequence_def ESC_def)

text \<open>
  C8, amended: the arrow keys and Home/End are encoded as the prefix \<open>ESC O\<close> in
  application-keypad mode and \<open>ESC [\<close> otherwise, followed by the key's letter (A, B,
  C, D for up, down, right, left; H for Home, F for End); PageUp, PageDown, Shift-Tab,
  F5 to F12 and Menu are fixed CSI sequences and F1 to F4 the fixed sequences
  \<open>ESC O P\<close> to \<open>ESC O S\<close>, in either mode; a printable key is its single byte.
\<close>

theorem key_encoding:
  "(k \<in> {ARROW_UP, ARROW_DOWN, ARROW_RIGHT, ARROW_LEFT, HOME_KEY, END_KEY} \<longrightarrow>
      key_bytes app k = [ESC, if app then CHR ''O'' else CHR ''[''] @ key_suffix k)
   \<and> map key_suffix [ARROW_UP, ARROW_DOWN, ARROW_RIGHT, ARROW_LEFT, HOME_KEY, END_KEY]
       = [''A'', ''B'', ''C'', ''D'', ''H'', ''F'']
   \<and> (k \<in> {PAGE_UP, PAGE_DOWN, SHIFT_TAB, FN5, FN6, FN7, FN8, FN9, FN10, FN11, FN12, MENU_KEY} \<longrightarrow>
      key_bytes app k = key_suffix k \<and> is_csi_sequence (key_suffix k))
   \<and> map key_suffix [PAGE_UP, PAGE_DOWN, SHIFT_TAB, FN5, FN6, FN7, FN8, FN9, FN10, FN11, FN12, MENU_KEY]
       = map ((#) ESC) [''[5~'', ''[6~'', ''[Z'', ''[15~'', ''[17~'', ''[18~'', ''[19~'',
                        ''[20~'', ''[21~'', ''[23~'', ''[24~'', ''[29~'']
   \<and> map (key_bytes app) [FN1, FN2, FN3, FN4] = map ((#) ESC) [''OP'', ''OQ'', ''OR'', ''OS'']
   \<and> (printable c \<longrightarrow> key_bytes app (KEY c) = [char_of c] \<and> of_char (char_of c :: char) = c)"
proof -
  have "printable c \<Longrightarrow> of_char (char_of c :: char) = c"
    by (simp add: printable_def)
  then show ?thesis
    by (auto simp: key_bytes_def is_csi_sequence_def)
qed

theorem key_encoding_witness:
  "key_bytes True ARROW_UP = [ESC, CHR ''O'', CHR ''A'']
   \<and> key_bytes False END_KEY = [ESC, CHR ''['', CHR ''F'']
   \<and> key_bytes True PAGE_UP = ESC # ''[5~'' \<and> is_csi_sequence (key_bytes True PAGE_UP)
   \<and> printable 97 \<and> key_bytes True (KEY 97) = ''a''"
proof -
  have p: "printable 97" by (simp add: printable_def)
  have a: "char_of (97 :: int) = CHR ''a''" by code_simp
  from key_encoding[of ARROW_UP True 97] key_encoding[of END_KEY False 97]
    key_encoding[of PAGE_UP True 97] p a
  show ?thesis by simp
qed

subsection \<open>CSI commands\<close>

lemma Term_screen_put [simp]: "Term_screen (put_screen s t) = s"
  by (simp add: Term_screen_def put_screen_def)

lemma on_screen_Some:
  "on_screen f t = Some t' \<Longrightarrow> \<exists>s. f (Term_screen t) = Some s \<and> t' = put_screen s t"
  by (auto simp: on_screen_def)

lemma Term_set_cell_cursor:
  "Term_set_cell y row col g t = Some t' \<Longrightarrow> Term_col t' = Term_col t \<and> Term_row t' = Term_row t"
  by (auto simp: Term_set_cell_def Term_col_def Term_row_def same_shape_def
      dest!: on_screen_Some Screen_set_shape)

lemma csi_J_1_cols_overflow:
  "Term_col t \<le> col \<Longrightarrow> col \<le> INT_MAX \<Longrightarrow> csi_J_1_cols y col t = None"
proof (induction y col t rule: csi_J_1_cols.induct)
  case (1 y col t)
  show ?case
  proof (cases "Term_set_cell y (Term_row t) col [] t")
    case None
    with "1.prems" show ?thesis by (subst csi_J_1_cols.simps) simp
  next
    case (Some t')
    show ?thesis
    proof (cases "col < INT_MAX")
      case True
      from Term_set_cell_cursor[OF Some] "1.prems" have "Term_col t' \<le> col + 1" by simp
      with "1.IH"[OF _ Some True] "1.prems" True have "csi_J_1_cols y (col + 1) t' = None" by simp
      with Some True "1.prems" show ?thesis by (subst csi_J_1_cols.simps) simp
    next
      case False
      with Some "1.prems" show ?thesis by (subst csi_J_1_cols.simps) simp
    qed
  qed
qed

lemma csi_J_1_cols_skip: "Term_col t > 1 \<Longrightarrow> csi_J_1_cols y 1 t = Some t"
  by (subst csi_J_1_cols.simps) simp

lemma Term_clear_row_cursor:
  "Term_clear_row row t = Some t' \<Longrightarrow> Term_col t' = Term_col t \<and> Term_row t' = Term_row t"
  by (auto simp: Term_clear_row_def Term_col_def Term_row_def same_shape_def
      dest!: on_screen_Some Screen_clear_row_shape)

lemma csi_J_1_first_column: "Term_col t = 1 \<Longrightarrow> csi_J_1 y t = None"
proof (cases "for_loop [1 .. Term_row t - 1] Term_clear_row t")
  case None
  then show ?thesis by (simp add: csi_J_1_def)
next
  case (Some t1)
  assume "Term_col t = 1"
  with Some have "Term_col t1 = 1"
    by (rule for_loop_invariant) (simp add: Term_clear_row_cursor)
  then have "csi_J_1_cols y 1 t1 = None"
    by (intro csi_J_1_cols_overflow) (simp_all add: INT_MAX_def)
  with Some show ?thesis by (simp add: csi_J_1_def)
qed

lemma CSI_1J: "CSI ''1J'' = Some \<lparr> args = [1], command = CHR ''J'', len = 2, complete = True, mode = CHR 0x00 \<rparr>"
  by code_simp

text \<open>
  C3: the column loop of \<open>J\<close> with argument 1 tests \<open>col >= this->col()\<close> where the
  sibling command \<open>K\<close> tests \<open>col <= this->col()\<close>. With the cursor at (2,2) on the
  page \<open>ab / cd\<close> the command clears row 1 and leaves \<open>cd\<close> in row 2, where \<open>1K\<close>
  blanks both cells; with the cursor in column 1 the loop counts upwards until its
  counter overflows.
\<close>

theorem erase_backward_misses_cursor_row:
  "map_option page_text (run_CSI ascii_env ''1J'' (demo_text_term 2 2)) = Some [[[], []], [''c'', ''d'']]
   \<and> map_option page_text (run_CSI ascii_env ''1K'' (demo_text_term 2 2)) = Some [[''a'', ''b''], [[], []]]
   \<and> run_CSI ascii_env ''1J'' (demo_text_term 2 1) = None"
proof -
  have a: "map_option page_text (run_CSI ascii_env ''1J'' (demo_text_term 2 2)) = Some [[[], []], [''c'', ''d'']]"
    by code_simp
  have b: "map_option page_text (run_CSI ascii_env ''1K'' (demo_text_term 2 2)) = Some [[''a'', ''b''], [[], []]]"
    by code_simp
  have "Term_col (demo_text_term 2 1) = 1"
    by code_simp
  then have "csi_J_1 ascii_env (demo_text_term 2 1) = None"
    by (rule csi_J_1_first_column)
  then have c: "run_CSI ascii_env ''1J'' (demo_text_term 2 1) = None"
    by (simp add: run_CSI_def CSI_1J execute_CSI_def execute_CSI_plain_def csi_J_def)
  from a b c show ?thesis by simp
qed

text \<open>
  C4: the \<open>switch\<close> of the command \<open>n\<close> compares the numeric argument with the
  character constants \<open>'5'\<close> and \<open>'6'\<close>, that is with 53 and 54. The queries
  \<open>ESC [ 6 n\<close> and \<open>ESC [ 5 n\<close> write nothing; the cursor position report is the
  answer to \<open>ESC [ 54 n\<close>.
\<close>

theorem status_query_writes_nothing:
  "map_option master_out (run_CSI ascii_env ''6n'' (demo_text_term 1 2)) = Some []
   \<and> map_option master_out (run_CSI ascii_env ''5n'' (demo_text_term 1 2)) = Some []
   \<and> map_option master_out (run_CSI ascii_env ''54n'' (demo_text_term 1 2)) = Some (ESC # ''[1;2R'')
   \<and> map_option master_out (run_CSI ascii_env ''53n'' (demo_text_term 1 2)) = Some (ESC # ''[0n'')"
  by code_simp

lemma csi_n_digit_arguments: "csi_n [6] t = t \<and> csi_n [5] t = t"
  by (simp add: csi_n_def arg0_def char_code_def)

text \<open>
  C10: the codes 38 and 48 read their sub-selector with \<open>csi.args[0]\<close> without
  testing the size, and the selectors 2 and 5 read their components the same way. When
  38 or 48 ends the argument list, or fewer components follow than the selector needs,
  a read is outside the vector.
\<close>

theorem sgr_extended_colour_reads_past_end:
  "sgr_loop [38] a = None \<and> sgr_loop [48] a = None
   \<and> sgr_loop [38, 5] a = None \<and> sgr_loop [48, 2, r, g] a = None
   \<and> CSI ''38m'' = Some \<lparr> args = [38], command = CHR ''m'', len = 3, complete = True, mode = CHR 0x00 \<rparr>
   \<and> run_CSI y ''38m'' t = None"
proof -
  have p: "CSI ''38m'' = Some \<lparr> args = [38], command = CHR ''m'', len = 3, complete = True, mode = CHR 0x00 \<rparr>"
    by code_simp
  have "run_CSI y ''38m'' t = None"
    by (simp add: run_CSI_def p execute_CSI_def execute_CSI_plain_def csi_m_def)
  with p show ?thesis by simp
qed

text \<open>
  C9: on a sized page the command \<open>r\<close> completes and leaves the cursor at (1,1),
  whatever its arguments; with exactly two arguments, the second smaller than the
  first, \<open>scroll_t\<close> and \<open>scroll_b\<close> keep their values.
\<close>

theorem scroll_region_homes_cursor:
  assumes "1 \<le> Term_height t" and "1 \<le> Term_width t"
    and "command r = CHR ''r''" and "mode r = CHR 0x00"
  shows "\<exists>t'. execute_CSI y r t = Some t' \<and> Term_row t' = 1 \<and> Term_col t' = 1
     \<and> (length (args r) = 2 \<and> args r ! 1 < args r ! 0 \<longrightarrow>
          scroll_t (Term_screen t') = scroll_t (Term_screen t)
          \<and> scroll_b (Term_screen t') = scroll_b (Term_screen t))"
proof -
  from assms(3,4) have e: "execute_CSI y r t = Some (csi_r (args r) t)"
    by (simp add: execute_CSI_def execute_CSI_plain_def)
  have c: "Term_row (Term_set_cursor 1 1 t) = 1 \<and> Term_col (Term_set_cursor 1 1 t) = 1"
    using assms(1,2)
    by (simp add: Term_set_cursor_def Term_row_def Term_col_def Term_height_def Term_width_def
        Screen_set_cursor_def LIMIT_def Term_screen_def put_screen_def)
  have s: "Term_row (Term_set_scroll a b u) = Term_row u \<and> Term_col (Term_set_scroll a b u) = Term_col u" for a b u
    by (simp add: Term_set_scroll_def Term_row_def Term_col_def Screen_set_scroll_def
        Term_screen_def put_screen_def)
  have home: "Term_row (csi_r (args r) t) = 1 \<and> Term_col (csi_r (args r) t) = 1"
    using c s by (auto simp: csi_r_def Let_def split: list.splits)
  have keep: "scroll_t (Term_screen (Term_set_cursor 1 1 t)) = scroll_t (Term_screen t)
      \<and> scroll_b (Term_screen (Term_set_cursor 1 1 t)) = scroll_b (Term_screen t)"
    by (simp add: Term_set_cursor_def Screen_set_cursor_def Term_screen_def put_screen_def)
  have "length (args r) = 2 \<and> args r ! 1 < args r ! 0 \<longrightarrow>
      csi_r (args r) t = Term_set_cursor 1 1 t"
    by (auto simp: csi_r_def Let_def split: list.splits)
  with e home keep show ?thesis by auto
qed

theorem scroll_region_homes_cursor_witness:
  "1 \<le> Term_height (demo_text_term 2 2) \<and> 1 \<le> Term_width (demo_text_term 2 2)
   \<and> map_option (\<lambda>t'. (Term_row t', Term_col t', scroll_t (Term_screen t'), scroll_b (Term_screen t')))
        (run_CSI ascii_env ''2;1r'' (demo_text_term 2 2)) = Some (1, 1, 0, 0)
   \<and> map_option (\<lambda>t'. (Term_row t', Term_col t', scroll_t (Term_screen t'), scroll_b (Term_screen t')))
        (run_CSI ascii_env ''1;2r'' (demo_text_term 2 2)) = Some (1, 1, 1, 2)"
proof -
  define r where "r = \<lparr> args = [2, 1], command = CHR ''r'', len = 4, complete = True, mode = CHR 0x00 \<rparr>"
  have p: "CSI ''2;1r'' = Some r"
    unfolding r_def by code_simp
  have h: "1 \<le> Term_height (demo_text_term 2 2)" "1 \<le> Term_width (demo_text_term 2 2)"
    by code_simp+
  have z: "scroll_t (Term_screen (demo_text_term 2 2)) = 0" "scroll_b (Term_screen (demo_text_term 2 2)) = 0"
    by code_simp+
  from scroll_region_homes_cursor[OF h, of r ascii_env] z
  have "map_option (\<lambda>t'. (Term_row t', Term_col t', scroll_t (Term_screen t'), scroll_b (Term_screen t')))
        (run_CSI ascii_env ''2;1r'' (demo_text_term 2 2)) = Some (1, 1, 0, 0)"
    by (auto simp: run_CSI_def p r_def)
  moreover have "map_option (\<lambda>t'. (Term_row t', Term_col t', scroll_t (Term_screen t'), scroll_b (Term_screen t')))
        (run_CSI ascii_env ''1;2r'' (demo_text_term 2 2)) = Some (1, 1, 1, 2)"
    by code_simp
  ultimately show ?thesis using h by simp
qed

subsection \<open>Decoding across chunks\<close>

text \<open>
  The first \<open>update()\<close> of a fresh terminal decodes nothing: it takes back the delay
  that the constructor's \<open>resize\<close> left, and the bytes stay in \<open>data_buff\<close>. The
  concrete runs below start from the terminal after that call.
\<close>

lemma first_update_takes_delay:
  "feed_update y bytes (new_Term ms as) = Some (started (feed bytes (new_Term ms as)))"
  by (simp add: feed_update_def update_def feed_def new_Term_def started_def)

lemma demo_term_started: "update y (new_Term demo_screen demo_screen) = Some demo_term"
  by (simp add: update_def new_Term_def demo_term_def started_def)

text \<open>
  The split feeds that the spec names do agree with the unsplit feed: the cursor ends
  at row 1, column 2 in all three runs.
\<close>

lemma split_cursor_position_examples:
  "map_option screen_view (feed_update ascii_env (ESC # ''[1;2H'') demo_term)
     = Some ([[[], []], [[], []]], 1, 2)
   \<and> map_option screen_view
        (feed_update ascii_env (ESC # ''['') demo_term \<bind> feed_update ascii_env ''1;2H'')
     = Some ([[[], []], [[], []]], 1, 2)
   \<and> map_option screen_view
        (feed_update ascii_env (ESC # ''[1'') demo_term \<bind> feed_update ascii_env '';2H'')
     = Some ([[[], []], [[], []]], 1, 2)"
  by code_simp

text \<open>
  C1: not every boundary is resumable. The flags \<open>setcharset\<close> and \<open>dectst\<close> are
  plain local variables of \<open>update\<close>, unlike the static leftovers: fed in one chunk,
  \<open>ESC ( B\<close> selects a character set and shows nothing; fed as \<open>ESC (\<close> and then
  \<open>B\<close>, the second call has forgotten the designator and prints the \<open>B\<close>. And a
  UTF-8 glyph cut by the boundary is saved with as many bytes as its lead byte
  announces, read from the buffer past the end of the chunk: the two bytes \<open>C3 A9\<close>
  come back as the glyphs \<open>C3 00\<close> and \<open>A9\<close>.
\<close>

theorem split_feed_differs:
  "map_option screen_view (feed_update ascii_env (ESC # ''(B'') demo_term)
     = Some ([[[], []], [[], []]], 1, 1)
   \<and> map_option screen_view
        (feed_update ascii_env (ESC # ''('') demo_term \<bind> feed_update ascii_env ''B'')
     = Some ([[''B'', []], [[], []]], 1, 2)
   \<and> map_option screen_view (feed_update utf8_env ([CHR 0xC3, CHR 0xA9] @ ''b'') demo_term)
     = Some ([[[CHR 0xC3, CHR 0xA9], ''b''], [[], []]], 1, 2)
   \<and> map_option screen_view
        (feed_update utf8_env [CHR 0xC3] demo_term \<bind> feed_update utf8_env ([CHR 0xA9] @ ''b''))
     = Some ([[[CHR 0xC3, CHR 0x00], [CHR 0xA9]], [''b'', []]], 2, 2)"
  by code_simp

subsection \<open>Sized screens\<close>

lemma for_loop_total:
  assumes "P s"
    and "\<And>i u. i \<in> set xs \<Longrightarrow> P u \<Longrightarrow> \<exists>u'. body i u = Some u' \<and> P u'"
  shows "\<exists>s'. for_loop xs body s = Some s' \<and> P s'"
  using assms
proof (induction xs arbitrary: s)
  case Nil
  then show ?case by simp
next
  case (Cons i rest)
  from Cons.prems obtain u where u: "body i s = Some u" "P u" by fastforce
  from Cons.IH[OF u(2)] Cons.prems(2) obtain s' where "for_loop rest body u = Some s'" "P s'"
    by auto
  with u show ?case by simp
qed

lemma screen_ok_shape:
  "screen_ok s \<Longrightarrow> same_shape s s' \<Longrightarrow> lines_wide (width s) (lines s') \<Longrightarrow> screen_ok s'"
  by (simp add: screen_ok_def same_shape_def lines_wide_def line_count_ok_def)

lemma lines_wide_update:
  "lines_wide w ls \<Longrightarrow> w \<le> int (length (cells l)) \<Longrightarrow> lines_wide w (ls[k := l])"
  unfolding lines_wide_def list_all_iff
  by (auto dest!: subsetD[OF set_update_subset_insert])

lemma lines_wide_nth: "lines_wide w ls \<Longrightarrow> k < length ls \<Longrightarrow> w \<le> int (length (cells (ls ! k)))"
  by (simp add: lines_wide_def list_all_length)

lemma screen_ok_wide: "screen_ok s \<Longrightarrow> lines_wide (width s) (lines s)"
  by (simp add: screen_ok_def lines_wide_def)

lemma set_attrs_loop_total:
  assumes "1 \<le> col" "w \<le> int (length cs)"
  shows "\<exists>cs'. for_loop [0 .. n] (set_attrs_step a w col) cs = Some cs'
     \<and> length cs' = length cs \<and> map glyph cs' = map glyph cs"
proof -
  have "\<exists>cs'. for_loop [0 .. n] (set_attrs_step a w col) cs = Some cs'
     \<and> (length cs' = length cs \<and> map glyph cs' = map glyph cs)"
  proof (rule for_loop_total[where P = "\<lambda>u :: cell list. length u = length cs \<and> map glyph u = map glyph cs"])
    show "length cs = length cs \<and> map glyph cs = map glyph cs" by simp
  next
    fix i and u :: "cell list"
    assume i: "i \<in> set [0 .. n]" and u: "length u = length cs \<and> map glyph u = map glyph cs"
    show "\<exists>u'. set_attrs_step a w col i u = Some u' \<and> length u' = length cs \<and> map glyph u' = map glyph cs"
    proof (cases "col + i > w")
      case True
      with u show ?thesis by (simp add: set_attrs_step_def)
    next
      case False
      with i assms u have b: "0 \<le> col - 1 + i" "col - 1 + i < int (length u)" by auto
      then have "set_attrs_step a w col i u = Some (u[nat (col - 1 + i) := (u ! nat (col - 1 + i))\<lparr> attrs := a \<rparr>])"
        using False by (simp add: set_attrs_step_def vec_at_def vec_set_def)
      moreover have "map glyph (u[nat (col - 1 + i) := (u ! nat (col - 1 + i))\<lparr> attrs := a \<rparr>]) = map glyph u"
        using b by (simp add: map_update list_update_same_conv)
      ultimately show ?thesis using u by simp
    qed
  qed
  then show ?thesis by simp
qed

lemma Screen_set_ok:
  assumes ok: "screen_ok s" and row: "1 \<le> row" "row \<le> height s" and col: "1 \<le> col" "col \<le> width s"
  shows "\<exists>s'. Screen_set y a row col g s = Some s' \<and> screen_ok s' \<and> same_shape s s'
     \<and> glyph_at s' row col = Some g"
proof -
  define idx where "idx = scrollback s + row - 1"
  define l where "l = lines s ! nat idx"
  define c where "c = cells l ! nat (col - 1)"
  define cs where "cs = (cells l)[nat (col - 1) := c\<lparr> glyph := g \<rparr>]"
  from ok row have idx: "0 \<le> idx" "idx < int (length (lines s))"
    by (simp_all add: idx_def screen_ok_def line_count_ok_def)
  then have wl: "width s \<le> int (length (cells l))"
    using lines_wide_nth[OF screen_ok_wide[OF ok], of "nat idx"] by (simp add: l_def)
  with col have cb: "0 \<le> col - 1" "col - 1 < int (length (cells l))" by simp_all
  from wl have "width s \<le> int (length cs)" by (simp add: cs_def)
  from set_attrs_loop_total[OF col(1) this, of "glyph_width y g - 1" a] obtain cs' where
    cs': "for_loop [0 .. glyph_width y g - 1] (set_attrs_step a (width s) col) cs = Some cs'"
         "length cs' = length cs" "map glyph cs' = map glyph cs" by blast
  define s' where "s' = s\<lparr> lines := (lines s)[nat idx := l\<lparr> cells := cs', dirty := True \<rparr>] \<rparr>"
  from row col idx cb cs'(1) have r: "Screen_set y a row col g s = Some s'"
    by (simp add: Screen_set_def vec_at_def vec_set_def idx_def[symmetric] l_def[symmetric]
        c_def[symmetric] cs_def[symmetric] s'_def)
  have sh: "same_shape s s'" by (simp add: same_shape_def s'_def)
  have "lines_wide (width s) (lines s')"
    unfolding s'_def using wl cs'(2)
    by (simp add: lines_wide_update[OF screen_ok_wide[OF ok]] cs_def)
  with ok sh have ok': "screen_ok s'" by (rule screen_ok_shape)
  have "glyph (cs' ! nat (col - 1)) = map glyph cs' ! nat (col - 1)"
    using cb cs'(2) by (simp add: cs_def)
  also have "\<dots> = g" using cb by (simp add: cs'(3) cs_def)
  finally have "glyph_at s' row col = Some g"
    using idx cb cs'(2)
    by (simp add: glyph_at_def page_row_def vec_at_def s'_def idx_def[symmetric] cs_def)
  with r ok' sh show ?thesis by blast
qed


lemma lines_wide_subset: "lines_wide w ls \<Longrightarrow> set ls' \<subseteq> set ls \<Longrightarrow> lines_wide w ls'"
  by (auto simp: lines_wide_def list_all_iff)

lemma lines_wide_erase: "lines_wide w ls \<Longrightarrow> lines_wide w (take k ls @ drop (Suc k) ls)"
  by (erule lines_wide_subset) (auto dest: in_set_takeD in_set_dropD)

lemma lines_wide_insert:
  "lines_wide w ls \<Longrightarrow> w \<le> int (length (cells l)) \<Longrightarrow> lines_wide w (take k ls @ l # drop k ls)"
  by (auto simp: lines_wide_def list_all_iff dest: in_set_takeD in_set_dropD)

lemma lines_wide_snoc:
  "lines_wide w ls \<Longrightarrow> w \<le> int (length (cells l)) \<Longrightarrow> lines_wide w (ls @ [l])"
  by (simp add: lines_wide_def)

lemma clear_cells_length: "clear_cells w a l = Some l' \<Longrightarrow> int (length (cells l')) = w"
  by (auto simp: clear_cells_def vec_resize_int_def vec_resize_def split: if_splits)

lemma clear_cells_total: "0 \<le> w \<Longrightarrow> \<exists>l'. clear_cells w a l = Some l'"
  by (simp add: clear_cells_def vec_resize_int_def)

lemma Line_blank: "0 \<le> w \<Longrightarrow> Line w a = Some (blank_line (nat w) a)"
  by (simp add: Line_def clear_cells_def vec_resize_int_def vec_resize_def blank_line_def)

lemma blank_line_length: "length (cells (blank_line n a)) = n"
  by (simp add: blank_line_def)

text \<open>A negative width: no line is built, and no line counts as longer.\<close>

lemma clear_cells_negative: "w < 0 \<Longrightarrow> clear_cells w a l = None"
  by (simp add: clear_cells_def vec_resize_int_def)

lemma max_line_width_negative: "w < 0 \<Longrightarrow> max_line_width w ls = w"
  by (induction ls) (simp_all add: max_line_width_def size_gt_def)

lemma screen_ok_frame: "screen_ok s = (frame_ok s \<and> lines_wide (width s) (lines s))"
  by (auto simp: screen_ok_def frame_ok_def lines_wide_def)

lemma frame_ok_shape: "frame_ok s \<Longrightarrow> same_shape s s' \<Longrightarrow> frame_ok s'"
  by (simp add: frame_ok_def same_shape_def line_count_ok_def)

lemma sc_bounds:
  "frame_ok s \<Longrightarrow> 1 \<le> sctop s \<and> sctop s \<le> height s \<and> 1 \<le> scbottom s \<and> scbottom s \<le> height s"
  by (auto simp: frame_ok_def sctop_def scbottom_def)

lemma mark_region_dirty_ok:
  assumes "frame_ok s"
  shows "\<exists>s'. mark_region_dirty s = Some s' \<and> same_shape s s'
     \<and> (lines_wide w (lines s) \<longrightarrow> lines_wide w (lines s'))"
  unfolding mark_region_dirty_def
proof (rule for_loop_total[where P = "\<lambda>u. same_shape s u \<and> (lines_wide w (lines s) \<longrightarrow> lines_wide w (lines u))"])
  show "same_shape s s \<and> (lines_wide w (lines s) \<longrightarrow> lines_wide w (lines s))"
    by (simp add: same_shape_refl)
next
  fix i u
  assume i: "i \<in> set [sctop s .. scbottom s]"
    and u: "same_shape s u \<and> (lines_wide w (lines s) \<longrightarrow> lines_wide w (lines u))"
  define k where "k = scrollback s + i - 1"
  from i sc_bounds[OF assms] assms u have k: "0 \<le> k" "k < int (length (lines u))"
    by (auto simp: k_def frame_ok_def line_count_ok_def same_shape_def)
  define u' where "u' = u\<lparr> lines := (lines u)[nat k := (lines u ! nat k)\<lparr> dirty := True \<rparr>] \<rparr>"
  from k have r: "mark_dirty_row k u = Some u'"
    by (simp add: mark_dirty_row_def vec_at_def vec_set_def u'_def)
  from u have sh: "same_shape s u'" by (simp add: same_shape_def u'_def)
  have "lines_wide w (lines u) \<Longrightarrow> lines_wide w (lines u')"
    using k lines_wide_nth[of w "lines u" "nat k"]
    by (simp add: u'_def lines_wide_update)
  with u r sh show "\<exists>u'. mark_dirty_row (scrollback s + i - 1) u = Some u'
      \<and> same_shape s u' \<and> (lines_wide w (lines s) \<longrightarrow> lines_wide w (lines u'))"
    unfolding k_def by blast
qed

lemma insert_or_push_ok:
  assumes "1 \<le> nr" "nr \<le> int (length (lines s1)) + 1"
    and "lines_wide w (lines s1)" "w \<le> int (length (cells nl))"
  shows "\<exists>s2. insert_or_push nr nl s1 = Some s2 \<and> length (lines s2) = Suc (length (lines s1))
     \<and> lines_wide w (lines s2) \<and> same_fields s1 s2"
proof (cases "gt_size nr (lines s1)")
  case True
  then have "insert_or_push nr nl s1 = Some (s1\<lparr> lines := lines s1 @ [nl] \<rparr>)"
    by (simp add: insert_or_push_def)
  moreover have "lines_wide w (lines s1 @ [nl])"
    using assms(3,4) by (rule lines_wide_snoc)
  ultimately show ?thesis by (simp add: same_fields_def)
next
  case False
  with assms(1,2) have b: "0 \<le> nr - 1" "nr - 1 \<le> int (length (lines s1))"
    by (simp_all add: gt_size_def)
  define k where "k = nat (nr - 1)"
  from b have k: "k \<le> length (lines s1)" by (simp add: k_def)
  from False b have "insert_or_push nr nl s1
      = Some (s1\<lparr> lines := take k (lines s1) @ nl # drop k (lines s1) \<rparr>)"
    by (simp add: insert_or_push_def vec_insert_def k_def)
  moreover have "lines_wide w (take k (lines s1) @ nl # drop k (lines s1))"
    using assms(3,4) by (rule lines_wide_insert)
  moreover have "length (take k (lines s1) @ nl # drop k (lines s1)) = Suc (length (lines s1))"
    using k by simp
  ultimately show ?thesis by (simp add: same_fields_def)
qed

lemma Screen__delete_line_ok:
  assumes "0 \<le> d" "d < int (length (lines s))" "lines_wide w (lines s)"
  shows "\<exists>s1. Screen__delete_line d s = Some s1 \<and> Suc (length (lines s1)) = length (lines s)
     \<and> lines_wide w (lines s1) \<and> same_fields s s1"
proof -
  define k where "k = nat d"
  from assms(1,2) have k: "k < length (lines s)" by (simp add: k_def)
  from assms(1,2) have "Screen__delete_line d s
      = Some (s\<lparr> lines := take k (lines s) @ drop (Suc k) (lines s) \<rparr>)"
    by (simp add: Screen__delete_line_def vec_erase_def k_def)
  moreover have "lines_wide w (take k (lines s) @ drop (Suc k) (lines s))"
    using assms(3) by (rule lines_wide_erase)
  moreover have "Suc (length (take k (lines s) @ drop (Suc k) (lines s))) = length (lines s)"
    using k by simp
  ultimately show ?thesis by (simp add: same_fields_def)
qed

lemma Screen_scroll_up_ok:
  assumes ok: "screen_ok s"
  shows "\<exists>s'. Screen_scroll_up a s = Some s' \<and> screen_ok s' \<and> same_shape s s'"
proof -
  from ok have f: "frame_ok s" and wide: "lines_wide (width s) (lines s)"
    by (simp_all add: screen_ok_frame)
  define d where "d = (if scroll_t s \<noteq> 0 then scrollback s + scroll_t s else 1) - 1"
  define nr where "nr = scrollback s + scbottom s"
  from f have n: "int (length (lines s)) = scrollback s + height s" "0 \<le> scrollback s"
    "1 \<le> height s" "1 \<le> width s"
    by (simp_all add: frame_ok_def line_count_ok_def)
  from f n have d: "0 \<le> d" "d < int (length (lines s))"
    by (auto simp: d_def frame_ok_def)
  from Screen__delete_line_ok[OF d wide] obtain s1 where
    s1: "Screen__delete_line d s = Some s1" "Suc (length (lines s1)) = length (lines s)"
        "lines_wide (width s) (lines s1)" "same_fields s s1" by blast
  from sc_bounds[OF f] n s1(2) have nr: "1 \<le> nr" "nr \<le> int (length (lines s1)) + 1"
    by (simp_all add: nr_def)
  from n(4) clear_cells_total[of "width s" a "lines s ! nat d"] obtain nl where
    nl: "new_by_donation (width s) a (lines s ! nat d) = Some nl"
    by (auto simp: new_by_donation_def)
  have nlw: "width s \<le> int (length (cells nl))"
    using nl by (simp add: new_by_donation_def clear_cells_length)
  from insert_or_push_ok[OF nr s1(3) nlw] obtain s2 where
    s2: "insert_or_push nr nl s1 = Some s2" "length (lines s2) = Suc (length (lines s1))"
        "lines_wide (width s) (lines s2)" "same_fields s1 s2" by blast
  from s1(2,4) s2(2,4) have sh2: "same_shape s s2"
    by (simp add: same_shape_def same_fields_def)
  from frame_ok_shape[OF f sh2] have f2: "frame_ok s2" .
  from mark_region_dirty_ok[OF f2, of "width s"] s2(3) obtain s' where
    s': "mark_region_dirty s2 = Some s'" "same_shape s2 s'" "lines_wide (width s) (lines s')"
    by blast
  from d have old: "vec_at (lines s) d = Some (lines s ! nat d)"
    by (simp add: vec_at_def)
  have "Screen_scroll_up a s = Some s'"
    unfolding Screen_scroll_up_def Let_def d_def[symmetric] nr_def[symmetric]
    using old nl s1(1) s2(1) s'(1) by simp
  moreover from sh2 s'(2) have sh: "same_shape s s'" by (rule same_shape_trans)
  moreover from ok sh s'(3) have "screen_ok s'" by (rule screen_ok_shape)
  ultimately show ?thesis by blast
qed

subsection \<open>Deferred wrap\<close>

lemma put_screen_fields [simp]:
  "wrap_next (put_screen s t) = wrap_next t" "auto_wrap (put_screen s t) = auto_wrap t"
  "current_attrs (put_screen s t) = current_attrs t" "alt_active (put_screen s t) = alt_active t"
  by (simp_all add: put_screen_def)

lemma Term_screen_wrap_next [simp]: "Term_screen (t\<lparr> wrap_next := b \<rparr>) = Term_screen t"
  by (simp add: Term_screen_def)



lemma Screen_set_cursor_inside:
  assumes "1 \<le> row" "row \<le> height s" "1 \<le> col" "col \<le> width s"
  shows "Screen_set_cursor row col s = s\<lparr> cursor_row := row, cursor_col := col \<rparr>"
  using assms by (simp add: Screen_set_cursor_def LIMIT_def)





lemma term_ok_wrap_next [simp]: "term_ok (t\<lparr> wrap_next := b \<rparr>) = term_ok t"
  by (simp add: term_ok_def Term_height_def Term_width_def)

lemma Term_geometry_wrap_next [simp]:
  "Term_row (t\<lparr> wrap_next := b \<rparr>) = Term_row t" "Term_col (t\<lparr> wrap_next := b \<rparr>) = Term_col t"
  by (simp_all add: Term_row_def Term_col_def)



















subsection \<open>The mutations are total on a sized screen\<close>

lemma same_fields_shape:
  "same_fields s s' \<Longrightarrow> length (lines s') = length (lines s) \<Longrightarrow> same_shape s s'"
  by (simp add: same_fields_def same_shape_def)

lemma vec_insert_lines_ok:
  assumes "0 \<le> k" "k \<le> int (length (lines s1))"
    and "lines_wide w (lines s1)" "w \<le> int (length (cells nl))"
  shows "\<exists>ls. vec_insert (lines s1) k nl = Some ls \<and> length ls = Suc (length (lines s1))
     \<and> lines_wide w ls"
proof -
  from assms(1,2) have "vec_insert (lines s1) k nl
      = Some (take (nat k) (lines s1) @ nl # drop (nat k) (lines s1))"
    by (simp add: vec_insert_def)
  moreover have "lines_wide w (take (nat k) (lines s1) @ nl # drop (nat k) (lines s1))"
    using assms(3,4) by (rule lines_wide_insert)
  moreover have "length (take (nat k) (lines s1) @ nl # drop (nat k) (lines s1)) = Suc (length (lines s1))"
    using assms(1,2) by simp
  ultimately show ?thesis by simp
qed

lemma frame_facts:
  assumes "frame_ok s"
  shows "int (length (lines s)) = scrollback s + height s" "0 \<le> scrollback s"
    "1 \<le> height s" "1 \<le> width s"
  using assms by (simp_all add: frame_ok_def line_count_ok_def)

lemma finish_region:
  assumes ok: "screen_ok s" and sh: "same_shape s s2" and w: "lines_wide (width s) (lines s2)"
  shows "\<exists>s'. mark_region_dirty s2 = Some s' \<and> screen_ok s' \<and> same_shape s s'"
proof -
  from ok have f: "frame_ok s" by (simp add: screen_ok_frame)
  from frame_ok_shape[OF f sh] have f2: "frame_ok s2" .
  from mark_region_dirty_ok[OF f2, of "width s"] w obtain s' where
    s': "mark_region_dirty s2 = Some s'" "same_shape s2 s'" "lines_wide (width s) (lines s')"
    by blast
  from sh s'(2) have "same_shape s s'" by (rule same_shape_trans)
  moreover from ok this s'(3) have "screen_ok s'" by (rule screen_ok_shape)
  ultimately show ?thesis using s'(1) by blast
qed

lemma Screen_scroll_down_ok:
  assumes ok: "screen_ok s"
  shows "\<exists>s'. Screen_scroll_down a s = Some s' \<and> screen_ok s' \<and> same_shape s s'"
proof -
  from ok have f: "frame_ok s" and wide: "lines_wide (width s) (lines s)"
    by (simp_all add: screen_ok_frame)
  note n = frame_facts[OF f]
  define d where "d = scrollback s + scbottom s - 1"
  define k where "k = scrollback s + (if scroll_t s \<noteq> 0 then scroll_t s else 1) - 1"
  from sc_bounds[OF f] n have d: "0 \<le> d" "d < int (length (lines s))"
    by (simp_all add: d_def)
  from Screen__delete_line_ok[OF d wide] obtain s1 where
    s1: "Screen__delete_line d s = Some s1" "Suc (length (lines s1)) = length (lines s)"
        "lines_wide (width s) (lines s1)" "same_fields s s1" by blast
  from f n s1(2) have k: "0 \<le> k" "k \<le> int (length (lines s1))"
    by (auto simp: k_def frame_ok_def)
  define nl where "nl = blank_line (nat (width s)) a"
  from n(4) have nl: "Line (width s) a = Some nl"
    by (simp add: nl_def Line_blank)
  from n(4) have nlw: "width s \<le> int (length (cells nl))"
    by (simp add: nl_def blank_line_length)
  from vec_insert_lines_ok[OF k s1(3) nlw] obtain ls where
    ls: "vec_insert (lines s1) k nl = Some ls" "length ls = Suc (length (lines s1))"
        "lines_wide (width s) ls" by blast
  from s1(2,4) ls(2) have sh2: "same_shape s (s1\<lparr> lines := ls \<rparr>)"
    by (simp add: same_shape_def same_fields_def)
  from finish_region[OF ok sh2] ls(3) obtain s' where
    s': "mark_region_dirty (s1\<lparr> lines := ls \<rparr>) = Some s'" "screen_ok s'" "same_shape s s'"
    by auto
  have "Screen_scroll_down a s = Some s'"
    unfolding Screen_scroll_down_def Let_def d_def[symmetric] k_def[symmetric]
    using nl s1(1) ls(1) s'(1) by simp
  with s'(2,3) show ?thesis by blast
qed

lemma Screen_insert_line_ok:
  assumes ok: "screen_ok s" and row: "1 \<le> row" "row \<le> height s"
  shows "\<exists>s'. Screen_insert_line a row s = Some s' \<and> screen_ok s' \<and> same_shape s s'"
proof -
  from ok have f: "frame_ok s" and wide: "lines_wide (width s) (lines s)"
    by (simp_all add: screen_ok_frame)
  note n = frame_facts[OF f]
  define d where "d = scrollback s + scbottom s - 1"
  define nr where "nr = scrollback s + row"
  from sc_bounds[OF f] n have d: "0 \<le> d" "d < int (length (lines s))"
    by (simp_all add: d_def)
  from Screen__delete_line_ok[OF d wide] obtain s1 where
    s1: "Screen__delete_line d s = Some s1" "Suc (length (lines s1)) = length (lines s)"
        "lines_wide (width s) (lines s1)" "same_fields s s1" by blast
  from row n s1(2) have nr: "1 \<le> nr" "nr \<le> int (length (lines s1)) + 1"
    by (simp_all add: nr_def)
  define nl where "nl = blank_line (nat (width s)) a"
  from n(4) have nl: "Line (width s) a = Some nl"
    by (simp add: nl_def Line_blank)
  from n(4) have nlw: "width s \<le> int (length (cells nl))"
    by (simp add: nl_def blank_line_length)
  from insert_or_push_ok[OF nr s1(3) nlw] obtain s2 where
    s2: "insert_or_push nr nl s1 = Some s2" "length (lines s2) = Suc (length (lines s1))"
        "lines_wide (width s) (lines s2)" "same_fields s1 s2" by blast
  from s1(2,4) s2(2,4) have sh2: "same_shape s s2"
    by (simp add: same_shape_def same_fields_def)
  from finish_region[OF ok sh2 s2(3)] obtain s' where
    s': "mark_region_dirty s2 = Some s'" "screen_ok s'" "same_shape s s'" by blast
  have "Screen_insert_line a row s = Some s'"
    unfolding Screen_insert_line_def Let_def d_def[symmetric] nr_def[symmetric]
    using nl s1(1) s2(1) s'(1) by simp
  with s'(2,3) show ?thesis by blast
qed

lemma Screen_delete_line_ok:
  assumes ok: "screen_ok s" and row: "1 \<le> row" "row \<le> height s"
  shows "\<exists>s'. Screen_delete_line a row s = Some s' \<and> screen_ok s' \<and> same_shape s s'"
proof -
  from ok have f: "frame_ok s" and wide: "lines_wide (width s) (lines s)"
    by (simp_all add: screen_ok_frame)
  note n = frame_facts[OF f]
  define d where "d = scrollback s + row - 1"
  define k where "k = scrollback s + scbottom s - 1"
  define reg where "reg = (scroll_t s \<noteq> 0 \<or> scroll_b s \<noteq> 0)"
  from row n have d: "0 \<le> d" "d < int (length (lines s))"
    by (simp_all add: d_def)
  from Screen__delete_line_ok[OF d wide] obtain s1 where
    s1: "Screen__delete_line d s = Some s1" "Suc (length (lines s1)) = length (lines s)"
        "lines_wide (width s) (lines s1)" "same_fields s s1" by blast
  from sc_bounds[OF f] n s1(2) have k: "0 \<le> k" "k \<le> int (length (lines s1))"
    by (simp_all add: k_def)
  define nl where "nl = blank_line (nat (width s)) a"
  from n(4) have nl: "Line (width s) a = Some nl"
    by (simp add: nl_def Line_blank)
  from n(4) have nlw: "width s \<le> int (length (cells nl))"
    by (simp add: nl_def blank_line_length)
  from vec_insert_lines_ok[OF k s1(3) nlw] obtain ls where
    ls: "vec_insert (lines s1) k nl = Some ls" "length ls = Suc (length (lines s1))"
        "lines_wide (width s) ls" by blast
  define s2 where "s2 = s1\<lparr> lines := ls \<rparr>"
  from s1(2,4) ls(2) have sh2: "same_shape s s2"
    by (simp add: same_shape_def same_fields_def s2_def)
  from ls(3) have w2: "lines_wide (width s) (lines s2)" by (simp add: s2_def)
  obtain s' where s': "(if reg then mark_region_dirty s2 else Some s2) = Some s'"
    "screen_ok s'" "same_shape s s'"
  proof (cases reg)
    case True
    from finish_region[OF ok sh2 w2] obtain u where
      "mark_region_dirty s2 = Some u" "screen_ok u" "same_shape s u" by blast
    with True that show ?thesis by simp
  next
    case False
    from ok sh2 w2 have "screen_ok s2" by (rule screen_ok_shape)
    with False sh2 that show ?thesis by simp
  qed
  have "Screen_delete_line a row s = Some s'"
    unfolding Screen_delete_line_def Let_def d_def[symmetric] k_def[symmetric] reg_def[symmetric]
    using nl s1(1) ls(1) s'(1)[unfolded s2_def] by simp
  with s'(2,3) show ?thesis by blast
qed

lemma line_update_ok:
  assumes ok: "screen_ok s" and row: "1 \<le> row" "row \<le> height s"
    and w: "width s \<le> int (length (cells l'))"
    and idx_def: "idx = scrollback s + row - 1"
  shows "vec_at (lines s) idx = Some (lines s ! nat idx)"
    and "vec_set (lines s) idx l' = Some ((lines s)[nat idx := l'])"
    and "screen_ok (s\<lparr> lines := (lines s)[nat idx := l'] \<rparr>)"
    and "same_shape s (s\<lparr> lines := (lines s)[nat idx := l'] \<rparr>)"
proof -
  from ok have f: "frame_ok s" and wide: "lines_wide (width s) (lines s)"
    by (simp_all add: screen_ok_frame)
  note n = frame_facts[OF f]
  from row n have idx: "0 \<le> idx" "idx < int (length (lines s))"
    by (simp_all add: idx_def)
  from idx show "vec_at (lines s) idx = Some (lines s ! nat idx)"
    by (simp add: vec_at_def)
  from idx show "vec_set (lines s) idx l' = Some ((lines s)[nat idx := l'])"
    by (simp add: vec_set_def)
  show sh: "same_shape s (s\<lparr> lines := (lines s)[nat idx := l'] \<rparr>)"
    by (simp add: same_shape_def)
  have "lines_wide (width s) ((lines s)[nat idx := l'])"
    using wide w by (rule lines_wide_update)
  then have "lines_wide (width s) (lines (s\<lparr> lines := (lines s)[nat idx := l'] \<rparr>))"
    by simp
  with ok sh show "screen_ok (s\<lparr> lines := (lines s)[nat idx := l'] \<rparr>)"
    by (rule screen_ok_shape)
qed

lemma page_line_wide:
  assumes ok: "screen_ok s" and row: "1 \<le> row" "row \<le> height s"
  shows "width s \<le> int (length (cells (lines s ! nat (scrollback s + row - 1))))"
proof -
  from ok have f: "frame_ok s" and wide: "lines_wide (width s) (lines s)"
    by (simp_all add: screen_ok_frame)
  from row frame_facts[OF f] have "nat (scrollback s + row - 1) < length (lines s)"
    by simp
  with wide show ?thesis by (rule lines_wide_nth)
qed

lemma Screen_insert_ok:
  assumes ok: "screen_ok s" and row: "1 \<le> row" "row \<le> height s" and col: "1 \<le> col" "col \<le> width s"
  shows "\<exists>s'. Screen_insert a row col g s = Some s' \<and> screen_ok s' \<and> same_shape s s'"
proof -
  define l where "l = lines s ! nat (scrollback s + row - 1)"
  define cs where "cs = take (nat (col - 1)) (cells l) @ \<lparr> glyph = g, attrs = a \<rparr> # drop (nat (col - 1)) (cells l)"
  define l' where "l' = l\<lparr> cells := butlast cs \<rparr>"
  have len: "length (butlast cs) = length (cells l)"
    by (simp add: cs_def)
  from page_line_wide[OF ok row] have wl: "width s \<le> int (length (cells l))"
    by (simp add: l_def)
  with len have "width s \<le> int (length (cells l'))" by (simp add: l'_def)
  note u = line_update_ok[OF ok row this refl]
  define ls where "ls = (lines s)[nat (scrollback s + row - 1) := l']"
  have ls: "vec_at (lines s) (scrollback s + row - 1) = Some l"
        "vec_set (lines s) (scrollback s + row - 1) l' = Some ls"
        "screen_ok (s\<lparr> lines := ls \<rparr>)" "same_shape s (s\<lparr> lines := ls \<rparr>)"
    unfolding l_def ls_def by (rule u)+
  from col wl have "vec_insert (cells l) (col - 1) \<lparr> glyph = g, attrs = a \<rparr> = Some cs"
    by (simp add: vec_insert_def cs_def)
  with ls(1,2) have "Screen_insert a row col g s = Some (s\<lparr> lines := ls \<rparr>)"
    by (simp add: Screen_insert_def l'_def)
  with ls(3,4) show ?thesis by blast
qed

lemma Screen_del_cell_ok:
  assumes ok: "screen_ok s" and row: "1 \<le> row" "row \<le> height s" and col: "1 \<le> col" "col \<le> width s"
  shows "\<exists>s'. Screen_del_cell a row col s = Some s' \<and> screen_ok s' \<and> same_shape s s'"
proof -
  define l where "l = lines s ! nat (scrollback s + row - 1)"
  define cs where "cs = take (nat (col - 1)) (cells l) @ drop (Suc (nat (col - 1))) (cells l)"
  define l' where "l' = l\<lparr> cells := cs @ [blank_cell a], dirty := True \<rparr>"
  from page_line_wide[OF ok row] have wl: "width s \<le> int (length (cells l))"
    by (simp add: l_def)
  with col have len: "length (cs @ [blank_cell a]) = length (cells l)"
    by (simp add: cs_def)
  with wl have "width s \<le> int (length (cells l'))" by (simp add: l'_def)
  note u = line_update_ok[OF ok row this refl]
  define ls where "ls = (lines s)[nat (scrollback s + row - 1) := l']"
  have ls: "vec_at (lines s) (scrollback s + row - 1) = Some l"
        "vec_set (lines s) (scrollback s + row - 1) l' = Some ls"
        "screen_ok (s\<lparr> lines := ls \<rparr>)" "same_shape s (s\<lparr> lines := ls \<rparr>)"
    unfolding l_def ls_def by (rule u)+
  from col wl have "vec_erase (cells l) (col - 1) = Some cs"
    by (simp add: vec_erase_def cs_def)
  with ls(1,2) have "Screen_del_cell a row col s = Some (s\<lparr> lines := ls \<rparr>)"
    by (simp add: Screen_del_cell_def l'_def)
  with ls(3,4) show ?thesis by blast
qed

lemma Screen_clear_row_ok:
  assumes ok: "screen_ok s" and row: "1 \<le> row" "row \<le> height s"
  shows "\<exists>s'. Screen_clear_row a row s = Some s' \<and> screen_ok s' \<and> same_shape s s'"
proof -
  define l where "l = lines s ! nat (scrollback s + row - 1)"
  from ok have "1 \<le> width s" by (simp add: screen_ok_def)
  with clear_cells_total[of "width s" a l] obtain lc where
    lc: "clear_cells (width s) a l = Some lc" by auto
  define l' where "l' = lc\<lparr> dirty := True \<rparr>"
  from clear_cells_length[OF lc] have "width s \<le> int (length (cells l'))"
    by (simp add: l'_def)
  note u = line_update_ok[OF ok row this refl]
  define ls where "ls = (lines s)[nat (scrollback s + row - 1) := l']"
  have ls: "vec_at (lines s) (scrollback s + row - 1) = Some l"
        "vec_set (lines s) (scrollback s + row - 1) l' = Some ls"
        "screen_ok (s\<lparr> lines := ls \<rparr>)" "same_shape s (s\<lparr> lines := ls \<rparr>)"
    unfolding l_def ls_def by (rule u)+
  then have "Screen_clear_row a row s = Some (s\<lparr> lines := ls \<rparr>)"
    using lc by (simp add: Screen_clear_row_def Screen_clear_row_abs_def l'_def)
  with ls(3,4) show ?thesis by blast
qed

lemma Screen_clear_page_ok:
  assumes ok: "screen_ok s"
  shows "\<exists>s'. Screen_clear_page a s = Some s' \<and> screen_ok s' \<and> same_shape s s'"
proof -
  have "\<exists>s'. for_loop [1 .. height s] (Screen_clear_row a) s = Some s'
      \<and> (screen_ok s' \<and> same_shape s s')"
  proof (rule for_loop_total[where P = "\<lambda>u. screen_ok u \<and> same_shape s u"])
    show "screen_ok s \<and> same_shape s s" using ok by (simp add: same_shape_refl)
  next
    fix i u
    assume i: "i \<in> set [1 .. height s]" and u: "screen_ok u \<and> same_shape s u"
    then have "1 \<le> i" "i \<le> height u" by (simp_all add: same_shape_def)
    from Screen_clear_row_ok[OF conjunct1[OF u] this, of a] obtain u' where
      "Screen_clear_row a i u = Some u'" "screen_ok u'" "same_shape u u'" by blast
    with u show "\<exists>u'. Screen_clear_row a i u = Some u' \<and> screen_ok u' \<and> same_shape s u'"
      by (blast intro: same_shape_trans)
  qed
  then show ?thesis by (simp add: Screen_clear_page_def)
qed

lemma Screen_set_total:
  assumes ok: "screen_ok s" and pos: "1 \<le> row" "1 \<le> col"
  shows "\<exists>s'. Screen_set y a row col g s = Some s' \<and> screen_ok s' \<and> same_shape s s'"
proof (cases "row > height s \<or> col > width s")
  case True
  with ok show ?thesis by (simp add: Screen_set_def same_shape_refl)
next
  case False
  with Screen_set_ok[OF ok pos(1) _ pos(2), of y a g] show ?thesis by auto
qed

text \<open>
  On a sized screen every mutation whose arguments address the page completes, and the
  screen stays sized: no index leaves its vector.
\<close>

lemma mutate_ok:
  assumes "screen_ok s" and "mutation_in_page s m"
  shows "\<exists>s'. mutate y (a, m) s = Some s' \<and> screen_ok s' \<and> same_shape s s'"
proof (cases m)
  case ScrollUp
  with Screen_scroll_up_ok[OF assms(1), of a] show ?thesis by simp
next
  case ScrollDown
  with Screen_scroll_down_ok[OF assms(1), of a] show ?thesis by simp
next
  case (InsertLine row)
  with assms(2) Screen_insert_line_ok[OF assms(1), of row a] show ?thesis by simp
next
  case (DeleteLine row)
  with assms(2) Screen_delete_line_ok[OF assms(1), of row a] show ?thesis by simp
next
  case (SetCell row col g)
  with assms(2) Screen_set_total[OF assms(1), of row col y a g] show ?thesis by simp
next
  case (InsertCell row col g)
  with assms(2) Screen_insert_ok[OF assms(1), of row col a g] show ?thesis by simp
next
  case (DeleteCell row col)
  with assms(2) Screen_del_cell_ok[OF assms(1), of row col a] show ?thesis by simp
next
  case (ClearRow row)
  with assms(2) Screen_clear_row_ok[OF assms(1), of row a] show ?thesis by simp
next
  case ClearPage
  with Screen_clear_page_ok[OF assms(1), of a] show ?thesis by simp
qed


lemma mutation_in_page_shape: "same_shape s u \<Longrightarrow> mutation_in_page u m = mutation_in_page s m"
  by (cases m) (simp_all add: same_shape_def)

lemma mutations_ok:
  assumes ok: "screen_ok s" and ms: "list_all (\<lambda>am. mutation_in_page s (snd am)) ms"
  shows "\<exists>s'. for_loop ms (mutate y) s = Some s' \<and> screen_ok s' \<and> same_shape s s'"
proof -
  have "\<exists>s'. for_loop ms (mutate y) s = Some s' \<and> (screen_ok s' \<and> same_shape s s')"
  proof (rule for_loop_total[where P = "\<lambda>u. screen_ok u \<and> same_shape s u"])
    show "screen_ok s \<and> same_shape s s" using ok by (simp add: same_shape_refl)
  next
    fix am u
    assume am: "am \<in> set ms" and u: "screen_ok u \<and> same_shape s u"
    obtain a m where p: "am = (a, m)" by (cases am)
    from am ms p have "mutation_in_page s m" by (auto simp: list_all_iff)
    with u have "mutation_in_page u m"
      using mutation_in_page_shape[of s u m] by blast
    from mutate_ok[OF conjunct1[OF u] this, of y a] obtain u' where
      "mutate y (a, m) u = Some u'" "screen_ok u'" "same_shape u u'" by blast
    with u p show "\<exists>u'. mutate y am u = Some u' \<and> screen_ok u' \<and> same_shape s u'"
      by (blast intro: same_shape_trans)
  qed
  then show ?thesis by simp
qed

end
